theory Spec2Isabelle
  imports Complex_Main
begin

section \<open>Errors and the sources of randomness\<close>

text \<open>
  The exceptions the pipeline can meet. \<open>StoreError\<close> stands for whatever the store
  client raises from a call; the other four are the Python exceptions of the same name.
\<close>

datatype error = IndexError | ValueError | KeyError | ZeroDivisionError | StoreError

text \<open>
  The generator draws from two ambient sources: the module \<open>random\<close> and
  \<open>uuid.uuid4\<close>. Each is an infinite tape of raw values, read from the front; the
  record is the state of both. Every statement below holds for all tapes.
\<close>

record entropy =
  rand_tape :: "nat \<Rightarrow> nat"
  uuid_tape :: "nat \<Rightarrow> nat"

definition next_rand :: "entropy \<Rightarrow> nat \<times> entropy" where
  "next_rand en = (rand_tape en 0, en\<lparr>rand_tape := (\<lambda>k. rand_tape en (Suc k))\<rparr>)"

definition uuid4 :: "entropy \<Rightarrow> nat \<times> entropy" where
  "uuid4 en = (uuid_tape en 0, en\<lparr>uuid_tape := (\<lambda>k. uuid_tape en (Suc k))\<rparr>)"

text \<open>
  \<open>random.randint(a, b)\<close> raises \<open>ValueError\<close> on an empty range and reads nothing then;
  \<open>random.choice(seq)\<close> raises \<open>IndexError\<close> on an empty sequence.
\<close>

definition randint :: "int \<Rightarrow> int \<Rightarrow> entropy \<Rightarrow> error + int \<times> entropy" where
  "randint a b en =
     (if b < a then Inl ValueError
      else (case next_rand en of
              (d, en') \<Rightarrow> Inr (a + int (d mod nat (b - a + 1)), en')))"

definition choice :: "'a list \<Rightarrow> entropy \<Rightarrow> error + 'a \<times> entropy" where
  "choice xs en =
     (if xs = [] then Inl IndexError
      else (case next_rand en of (d, en') \<Rightarrow> Inr (xs ! (d mod length xs), en')))"

section \<open>Data model\<close>

text \<open>
  A calendar date is its day number, a timestamp the number of seconds it lies after day
  zero. The generator's configuration comes from \<open>config.py\<close>, which is a parameter
  here: \<open>start_date\<close> and \<open>end_date\<close> are the day numbers of the two configured
  \<open>YYYY-MM-DD\<close> strings, \<open>CITIES\<close>, \<open>EVENTS\<close> and \<open>DEVICE_OS\<close> the three lists.
\<close>

type_synonym day = int

record config =
  num_rows :: int
  batch_size :: int
  start_date :: day
  end_date :: day
  CITIES :: "string list"
  EVENTS :: "string list"
  DEVICE_OS :: "string list"

record profile =
  profile_city :: string
  profile_device_os :: string
  created_date :: day

record row =
  date :: day
  event :: string
  device_id :: nat
  event_time :: int
  city :: string
  device_os :: string

section \<open>data\_generator.py\<close>

text \<open>
  \<open>_random_date(start, end)\<close>: a day between the two, both included. The profile's
  date reaches it through \<open>strftime\<close> and \<open>strptime\<close>, which give the same day back.
\<close>

definition random_date :: "day \<Rightarrow> day \<Rightarrow> entropy \<Rightarrow> error + day \<times> entropy" where
  "random_date start end' en =
     (case randint 0 (end' - start) en of
        Inl e \<Rightarrow> Inl e
      | Inr (random_days, en') \<Rightarrow> Inr (start + random_days, en'))"

definition random_datetime :: "day \<Rightarrow> entropy \<Rightarrow> error + int \<times> entropy" where
  "random_datetime d en =
     (case randint 0 23 en of
        Inl e \<Rightarrow> Inl e
      | Inr (hour, en1) \<Rightarrow>
          (case randint 0 59 en1 of
             Inl e \<Rightarrow> Inl e
           | Inr (minute, en2) \<Rightarrow>
               (case randint 0 59 en2 of
                  Inl e \<Rightarrow> Inl e
                | Inr (second, en3) \<Rightarrow>
                    Inr (d * 86400 + hour * 3600 + minute * 60 + second, en3))))"

text \<open>
  \<open>_weighted_random_event\<close>: \<open>random.choices\<close> with three weights raises
  \<open>ValueError\<close> unless the population has three entries. The draw is read in tenths:
  seven of ten pick the first event, two the second, one the third.
\<close>

definition weighted_random_event :: "string list \<Rightarrow> entropy \<Rightarrow> error + string \<times> entropy" where
  "weighted_random_event evs en =
     (if length evs \<noteq> 3 then Inl ValueError
      else (case next_rand en of
              (d, en') \<Rightarrow>
                Inr (evs ! (if d mod 10 < 7 then 0 else if d mod 10 < 9 then 1 else 2), en')))"

text \<open>
  \<open>max(1000, int(num_rows * 0.1))\<close>. \<open>int\<close> truncates towards zero, and the double
  product has the integer part of the exact tenth for every count below \<open>2 ^ 50\<close>.
\<close>

definition unique_devices :: "int \<Rightarrow> int" where
  "unique_devices n = max 1000 (if 0 \<le> n then n div 10 else - ((- n) div 10))"

text \<open>\<open>[str(uuid.uuid4()) for _ in range(unique_devices)]\<close>\<close>

fun new_device_ids :: "nat \<Rightarrow> entropy \<Rightarrow> nat list \<times> entropy" where
  "new_device_ids 0 en = ([], en)"
| "new_device_ids (Suc k) en =
     (case uuid4 en of
        (u, en1) \<Rightarrow> (case new_device_ids k en1 of (us, en2) \<Rightarrow> (u # us, en2)))"

text \<open>The loop that fills \<open>device_profiles\<close>; a later entry for the same key replaces
  the earlier one, as the dictionary assignment does.\<close>

fun assign_profiles ::
  "config \<Rightarrow> nat list \<Rightarrow> (nat \<rightharpoonup> profile) \<Rightarrow> entropy \<Rightarrow> error + (nat \<rightharpoonup> profile) \<times> entropy"
where
  "assign_profiles cfg [] profs en = Inr (profs, en)"
| "assign_profiles cfg (i # ids) profs en =
     (case choice (CITIES cfg) en of
        Inl e \<Rightarrow> Inl e
      | Inr (c, en1) \<Rightarrow>
          (case choice (DEVICE_OS cfg) en1 of
             Inl e \<Rightarrow> Inl e
           | Inr (os, en2) \<Rightarrow>
               (case random_date (start_date cfg) (end_date cfg) en2 of
                  Inl e \<Rightarrow> Inl e
                | Inr (cd, en3) \<Rightarrow>
                    assign_profiles cfg ids
                      (profs(i \<mapsto> \<lparr>profile_city = c, profile_device_os = os, created_date = cd\<rparr>))
                      en3)))"

text \<open>The device population both generators build first: the identifiers, then the
  profiles.\<close>

definition population ::
  "config \<Rightarrow> int \<Rightarrow> entropy \<Rightarrow> error + nat list \<times> (nat \<rightharpoonup> profile) \<times> entropy"
where
  "population cfg n en =
     (case new_device_ids (nat n) en of
        (ids, en1) \<Rightarrow>
          (case assign_profiles cfg ids Map.empty en1 of
             Inl e \<Rightarrow> Inl e
           | Inr (profs, en2) \<Rightarrow> Inr (ids, profs, en2)))"

text \<open>One pass of the row loop's body, and the loop over \<open>range(n)\<close>.\<close>

definition gen_row ::
  "config \<Rightarrow> nat list \<Rightarrow> (nat \<rightharpoonup> profile) \<Rightarrow> entropy \<Rightarrow> error + row \<times> entropy"
where
  "gen_row cfg ids profs en =
     (case choice ids en of
        Inl e \<Rightarrow> Inl e
      | Inr (i, en1) \<Rightarrow>
          (case profs i of
             None \<Rightarrow> Inl KeyError
           | Some p \<Rightarrow>
               (case random_date (created_date p) (end_date cfg) en1 of
                  Inl e \<Rightarrow> Inl e
                | Inr (event_date, en2) \<Rightarrow>
                    (case random_datetime event_date en2 of
                       Inl e \<Rightarrow> Inl e
                     | Inr (t, en3) \<Rightarrow>
                         (case weighted_random_event (EVENTS cfg) en3 of
                            Inl e \<Rightarrow> Inl e
                          | Inr (ev, en4) \<Rightarrow>
                              Inr (\<lparr>date = event_date, event = ev, device_id = i,
                                    event_time = t, city = profile_city p,
                                    device_os = profile_device_os p\<rparr>, en4))))))"

fun gen_rows ::
  "config \<Rightarrow> nat list \<Rightarrow> (nat \<rightharpoonup> profile) \<Rightarrow> nat \<Rightarrow> entropy \<Rightarrow> error + row list \<times> entropy"
where
  "gen_rows cfg ids profs 0 en = Inr ([], en)"
| "gen_rows cfg ids profs (Suc n) en =
     (case gen_row cfg ids profs en of
        Inl e \<Rightarrow> Inl e
      | Inr (r, en1) \<Rightarrow>
          (case gen_rows cfg ids profs n en1 of
             Inl e \<Rightarrow> Inl e
           | Inr (rs, en2) \<Rightarrow> Inr (r # rs, en2)))"

text \<open>
  What the program prints on standard output, one constructor per \<open>print\<close> call (the
  texts are Russian in the source). \<open>Summary\<close> stands for the closing report of
  \<open>generate_dataframe\<close>: row count, number of devices, date range and the three
  distributions, all read off the frame and the identifier list it carries.
\<close>

datatype msg =
    Rule
  | Title
  | GeneratingRows int
  | GeneratingDeviceIds
  | AssigningProfiles
  | Summary "row list" nat
  | GeneratingBatches int int
  | BatchGenerated int int nat
  | ConnectingToStore
  | CreatingTable string string
  | LoadingData
  | StreamingBatches
  | LoadFinished
  | Elapsed
  | ErrorReport error

text \<open>
  \<open>pd.DataFrame(data).sort_values('event_time')\<close>. A frame built from an empty list
  has no columns, and sorting it by a column it lacks raises \<open>KeyError\<close>. The order
  pandas leaves rows of equal timestamp in is not used anywhere below.
\<close>

definition sort_values_event_time :: "row list \<Rightarrow> error + row list" where
  "sort_values_event_time data =
     (if data = [] then Inl KeyError else Inr (sort_key event_time data))"

text \<open>\<open>generate_dataframe\<close>: what it prints, and the frame it returns or the exception
  it raises.\<close>

definition generate_dataframe :: "config \<Rightarrow> int option \<Rightarrow> entropy \<Rightarrow> msg list \<times> (error + row list)" where
  "generate_dataframe cfg num_rows_arg en =
     (let n = (case num_rows_arg of None \<Rightarrow> num_rows cfg | Some k \<Rightarrow> k);
          out = [GeneratingRows n, GeneratingDeviceIds, AssigningProfiles]
      in case population cfg (unique_devices n) en of
           Inl e \<Rightarrow> (out, Inl e)
         | Inr (ids, profs, en1) \<Rightarrow>
             (case gen_rows cfg ids profs (nat n) en1 of
                Inl e \<Rightarrow> (out, Inl e)
              | Inr (data, en2) \<Rightarrow>
                  (case sort_values_event_time data of
                     Inl e \<Rightarrow> (out, Inl e)
                   | Inr df \<Rightarrow> (out @ [Summary df (length ids)], Inr df))))"

text \<open>
  \<open>generate_data_batches\<close> is a Python generator: nothing of its body runs before the
  consumer asks for the first batch, and what it prints, yields and raises comes in a
  fixed order. That order is the value here.
\<close>

datatype 'a gen = Stop | Raise error | Print msg "'a gen" | Yield 'a "'a gen"

text \<open>
  The loop over \<open>range(num_batches)\<close>: \<open>k\<close> passes are left, \<open>j\<close> is
  \<open>batch_num\<close> and \<open>n\<close> is \<open>total_rows\<close>. The line after \<open>yield\<close> prints when
  the consumer comes back for the next batch.
\<close>

fun batches_from ::
  "config \<Rightarrow> nat list \<Rightarrow> (nat \<rightharpoonup> profile) \<Rightarrow> int \<Rightarrow> int \<Rightarrow> int \<Rightarrow> nat \<Rightarrow> int \<Rightarrow> entropy
     \<Rightarrow> row list gen"
where
  "batches_from cfg ids profs b n nb 0 j en = Stop"
| "batches_from cfg ids profs b n nb (Suc k) j en =
     (case gen_rows cfg ids profs (nat (min b (n - j * b))) en of
        Inl e \<Rightarrow> Raise e
      | Inr (batch_data, en1) \<Rightarrow>
          Yield batch_data
            (Print (BatchGenerated (j + 1) nb (length batch_data))
               (batches_from cfg ids profs b n nb k (j + 1) en1)))"

definition generate_data_batches :: "config \<Rightarrow> int option \<Rightarrow> entropy \<Rightarrow> row list gen" where
  "generate_data_batches cfg batch_size_arg en =
     (let b = (case batch_size_arg of None \<Rightarrow> batch_size cfg | Some k \<Rightarrow> k);
          total_rows = num_rows cfg
      in if b = 0 then Raise ZeroDivisionError
         else (let num_batches = (total_rows + b - 1) div b
               in Print (GeneratingBatches total_rows num_batches)
                    (case population cfg (unique_devices total_rows) en of
                       Inl e \<Rightarrow> Raise e
                     | Inr (ids, profs, en1) \<Rightarrow>
                         batches_from cfg ids profs b total_rows num_batches
                           (nat num_batches) 0 en1)))"

text \<open>Reading a generator to its end: the batches it yields, what it prints, and the
  exception it ends with, if any.\<close>

fun yields :: "'a gen \<Rightarrow> 'a list" where
  "yields Stop = []"
| "yields (Raise e) = []"
| "yields (Print m g) = yields g"
| "yields (Yield x g) = x # yields g"

fun raised :: "'a gen \<Rightarrow> error option" where
  "raised Stop = None"
| "raised (Raise e) = Some e"
| "raised (Print m g) = raised g"
| "raised (Yield x g) = raised g"


text \<open>
  The configuration the spec describes: a non-empty city set and OS set, the three event
  types, and a date range that is not empty.
\<close>

definition wf_config :: "config \<Rightarrow> bool" where
  "wf_config cfg \<longleftrightarrow>
     CITIES cfg \<noteq> [] \<and> DEVICE_OS cfg \<noteq> [] \<and> length (EVENTS cfg) = 3 \<and>
     start_date cfg \<le> end_date cfg"

section \<open>clickhouse\_loader.py\<close>

text \<open>
  The store and its client are outside the repository. A call of the client either
  raises or returns rows; which, and what it returns, is the server's choice, made
  knowing every call that came before. The trace lists the calls in order, each with its
  answer (\<open>None\<close>: the call raised). Building the client object opens no connection,
  so the first call to reach the server is the query \<open>connect\<close> sends.
\<close>

datatype val = IntV int | StrV string

type_synonym result = "val list list"

datatype call =
    SelectVersion
  | CreateDatabase string
  | CreateTable string string
  | DescribeTable string string
  | InsertRows string string "row list"
  | CountRows string string
  | EventStats string string
  | RawQuery string
  | Disconnect

type_synonym trace = "(call \<times> result option) list"

type_synonym server = "trace \<Rightarrow> call \<Rightarrow> result option"

definition execute :: "server \<Rightarrow> call \<Rightarrow> trace \<Rightarrow> result option \<times> trace" where
  "execute srv c tr = (srv tr c, tr @ [(c, srv tr c)])"

text \<open>\<open>connect\<close>: the version query, then \<open>result[0][0]\<close>; whatever is raised is
  logged and raised again.\<close>

definition connect :: "server \<Rightarrow> trace \<Rightarrow> (error + unit) \<times> trace" where
  "connect srv tr =
     (case execute srv SelectVersion tr of
        (None, tr') \<Rightarrow> (Inl StoreError, tr')
      | (Some res, tr') \<Rightarrow>
          (case res of
             [] \<Rightarrow> (Inl IndexError, tr')
           | r # _ \<Rightarrow> (case r of [] \<Rightarrow> (Inl IndexError, tr') | _ # _ \<Rightarrow> (Inr (), tr'))))"

definition disconnect :: "server \<Rightarrow> trace \<Rightarrow> (error + unit) \<times> trace" where
  "disconnect srv tr =
     (case execute srv Disconnect tr of
        (None, tr') \<Rightarrow> (Inl StoreError, tr')
      | (Some _, tr') \<Rightarrow> (Inr (), tr'))"

definition create_database :: "server \<Rightarrow> string \<Rightarrow> trace \<Rightarrow> (error + unit) \<times> trace" where
  "create_database srv database_name tr =
     (case execute srv (CreateDatabase database_name) tr of
        (None, tr') \<Rightarrow> (Inl StoreError, tr')
      | (Some _, tr') \<Rightarrow> (Inr (), tr'))"

text \<open>\<open>show_table_structure\<close> logs what it catches and returns: its \<open>except\<close>
  clause has no \<open>raise\<close>.\<close>

definition show_table_structure ::
  "server \<Rightarrow> string \<Rightarrow> string \<Rightarrow> trace \<Rightarrow> (error + unit) \<times> trace" where
  "show_table_structure srv table_name database_name tr =
     (case execute srv (DescribeTable database_name table_name) tr of
        (_, tr') \<Rightarrow> (Inr (), tr'))"

definition create_table ::
  "server \<Rightarrow> string \<Rightarrow> string \<Rightarrow> trace \<Rightarrow> (error + unit) \<times> trace" where
  "create_table srv table_name database_name tr =
     (case create_database srv database_name tr of
        (Inl e, tr1) \<Rightarrow> (Inl e, tr1)
      | (Inr _, tr1) \<Rightarrow>
          (case execute srv (CreateTable database_name table_name) tr1 of
             (None, tr2) \<Rightarrow> (Inl StoreError, tr2)
           | (Some _, tr2) \<Rightarrow>
               (case show_table_structure srv table_name database_name tr2 of
                  (Inl e, tr3) \<Rightarrow> (Inl e, tr3)
                | (Inr _, tr3) \<Rightarrow> (Inr (), tr3))))"

text \<open>
  \<open>verify_data_count\<close> catches everything raised in its body: by either query, by
  \<open>result[0][0]\<close>, or by the thousands format of a count that is no number. The
  second query is sent only when the first count could be logged.
\<close>

definition count_readable :: "result \<Rightarrow> bool" where
  "count_readable res = (case res of (IntV _ # _) # _ \<Rightarrow> True | _ \<Rightarrow> False)"

definition verify_data_count ::
  "server \<Rightarrow> string \<Rightarrow> string \<Rightarrow> trace \<Rightarrow> (error + unit) \<times> trace" where
  "verify_data_count srv table_name database_name tr =
     (case execute srv (CountRows database_name table_name) tr of
        (None, tr1) \<Rightarrow> (Inr (), tr1)
      | (Some res, tr1) \<Rightarrow>
          (if count_readable res
           then (case execute srv (EventStats database_name table_name) tr1 of
                   (_, tr2) \<Rightarrow> (Inr (), tr2))
           else (Inr (), tr1)))"

text \<open>The loop of \<open>load_data\<close> over \<open>range(0, total_rows, batch_size)\<close>, for a
  positive step \<open>b\<close>: \<open>i\<close> is the loop variable, the slice is \<open>data[i:i + b]\<close>.\<close>

function insert_slices ::
  "server \<Rightarrow> string \<Rightarrow> string \<Rightarrow> row list \<Rightarrow> nat \<Rightarrow> nat \<Rightarrow> trace \<Rightarrow> (error + unit) \<times> trace"
where
  "insert_slices srv table_name database_name data b i tr =
     (if b = 0 \<or> length data \<le> i then (Inr (), tr)
      else (case execute srv (InsertRows database_name table_name (take b (drop i data))) tr of
              (None, tr') \<Rightarrow> (Inl StoreError, tr')
            | (Some _, tr') \<Rightarrow> insert_slices srv table_name database_name data b (i + b) tr'))"
  by pat_completeness auto
termination
  by (relation "measure (\<lambda>(srv, table_name, database_name, data, b, i, tr). length data - i)") auto

text \<open>
  \<open>load_data\<close>. An empty frame returns at once; the batch count divides by
  \<open>batch_size\<close> before the loop; a negative step makes the range empty. After the loop
  the count is verified.
\<close>

definition load_data ::
  "server \<Rightarrow> row list \<Rightarrow> string \<Rightarrow> string \<Rightarrow> int \<Rightarrow> trace \<Rightarrow> (error + unit) \<times> trace" where
  "load_data srv df table_name database_name b tr =
     (if df = [] then (Inr (), tr)
      else if b = 0 then (Inl ZeroDivisionError, tr)
      else (case (if b < 0 then (Inr (), tr)
                  else insert_slices srv table_name database_name df (nat b) 0 tr) of
              (Inl e, tr1) \<Rightarrow> (Inl e, tr1)
            | (Inr _, tr1) \<Rightarrow> verify_data_count srv table_name database_name tr1))"

definition load_data_batch ::
  "server \<Rightarrow> row list \<Rightarrow> string \<Rightarrow> string \<Rightarrow> trace \<Rightarrow> (error + unit) \<times> trace" where
  "load_data_batch srv df_batch table_name database_name tr =
     (if df_batch = [] then (Inr (), tr)
      else (case execute srv (InsertRows database_name table_name df_batch) tr of
              (None, tr') \<Rightarrow> (Inl StoreError, tr')
            | (Some _, tr') \<Rightarrow> (Inr (), tr')))"

definition execute_query :: "server \<Rightarrow> string \<Rightarrow> trace \<Rightarrow> (error + result) \<times> trace" where
  "execute_query srv query tr =
     (case execute srv (RawQuery query) tr of
        (None, tr') \<Rightarrow> (Inl StoreError, tr')
      | (Some res, tr') \<Rightarrow> (Inr res, tr'))"

section \<open>main.py\<close>

record args =
  args_rows :: int
  args_batch_size :: int
  args_table :: string
  args_database :: string
  args_generate_only :: bool

text \<open>
  The loop of \<open>main\<close> over the batch generator. It runs the generator as far as the
  next batch, adds the batch's length to \<open>total_rows\<close> and hands the batch to
  \<open>load_data_batch\<close>; an exception from either side ends it.
\<close>

fun feed_batches ::
  "server \<Rightarrow> string \<Rightarrow> string \<Rightarrow> row list gen \<Rightarrow> int \<Rightarrow> trace \<Rightarrow> msg list
     \<Rightarrow> (error + unit) \<times> int \<times> trace \<times> msg list"
where
  "feed_batches srv tbl db Stop t tr out = (Inr (), t, tr, out)"
| "feed_batches srv tbl db (Raise e) t tr out = (Inl e, t, tr, out)"
| "feed_batches srv tbl db (Print m g) t tr out = feed_batches srv tbl db g t tr (out @ [m])"
| "feed_batches srv tbl db (Yield df_batch g) t tr out =
     (case load_data_batch srv df_batch tbl db tr of
        (Inl e, tr') \<Rightarrow> (Inl e, t + int (length df_batch), tr', out)
      | (Inr _, tr') \<Rightarrow> feed_batches srv tbl db g (t + int (length df_batch)) tr' out)"

text \<open>
  The two branches of the \<open>try\<close> block. Each returns the exception that left it, if
  any, the value of \<open>total_rows\<close> if it was assigned, the trace and the console.
\<close>

definition whole_dataset ::
  "server \<Rightarrow> config \<Rightarrow> args \<Rightarrow> entropy \<Rightarrow> trace \<Rightarrow> msg list
     \<Rightarrow> (error + unit) \<times> int option \<times> trace \<times> msg list"
where
  "whole_dataset srv cfg a en tr out =
     (case generate_dataframe cfg (Some (args_rows a)) en of
        (printed, Inl e) \<Rightarrow> (Inl e, None, tr, out @ printed)
      | (printed, Inr df) \<Rightarrow>
          (if args_generate_only a then (Inr (), None, tr, out @ printed)
           else (let out1 = out @ printed @
                      [ConnectingToStore, CreatingTable (args_database a) (args_table a)]
                 in case create_table srv (args_table a) (args_database a) tr of
                      (Inl e, tr1) \<Rightarrow> (Inl e, None, tr1, out1)
                    | (Inr _, tr1) \<Rightarrow>
                        (case load_data srv df (args_table a) (args_database a)
                                (args_batch_size a) tr1 of
                           (Inl e, tr2) \<Rightarrow> (Inl e, None, tr2, out1 @ [LoadingData])
                         | (Inr _, tr2) \<Rightarrow>
                             (case disconnect srv tr2 of
                                (Inl e, tr3) \<Rightarrow> (Inl e, None, tr3, out1 @ [LoadingData])
                              | (Inr _, tr3) \<Rightarrow> (Inr (), None, tr3, out1 @ [LoadingData]))))))"

definition stream_batches ::
  "server \<Rightarrow> config \<Rightarrow> args \<Rightarrow> entropy \<Rightarrow> trace \<Rightarrow> msg list
     \<Rightarrow> (error + unit) \<times> int option \<times> trace \<times> msg list"
where
  "stream_batches srv cfg a en tr out =
     (case feed_batches srv (args_table a) (args_database a)
             (generate_data_batches cfg (Some (args_batch_size a)) en) 0 tr
             (out @ [StreamingBatches]) of
        (Inl e, t, tr1, out1) \<Rightarrow> (Inl e, Some t, tr1, out1)
      | (Inr _, t, tr1, out1) \<Rightarrow>
          (case verify_data_count srv (args_table a) (args_database a) tr1 of
             (Inl e, tr2) \<Rightarrow> (Inl e, Some t, tr2, out1 @ [LoadFinished])
           | (Inr _, tr2) \<Rightarrow>
               (case disconnect srv tr2 of
                  (Inl e, tr3) \<Rightarrow> (Inl e, Some t, tr3, out1 @ [LoadFinished])
                | (Inr _, tr3) \<Rightarrow> (Inr (), Some t, tr3, out1 @ [LoadFinished]))))"

definition streamed ::
  "server \<Rightarrow> config \<Rightarrow> args \<Rightarrow> entropy \<Rightarrow> trace \<Rightarrow> msg list
     \<Rightarrow> (error + unit) \<times> int option \<times> trace \<times> msg list"
where
  "streamed srv cfg a en tr out =
     (if args_generate_only a then stream_batches srv cfg a en tr out
      else (case connect srv tr of
              (Inl e, tr1) \<Rightarrow> (Inl e, None, tr1, out @ [ConnectingToStore])
            | (Inr _, tr1) \<Rightarrow>
                (let out1 = out @
                       [ConnectingToStore, CreatingTable (args_database a) (args_table a)]
                 in case create_table srv (args_table a) (args_database a) tr1 of
                      (Inl e, tr2) \<Rightarrow> (Inl e, None, tr2, out1)
                    | (Inr _, tr2) \<Rightarrow> stream_batches srv cfg a en tr2 out1)))"

text \<open>
  The \<open>try\<close> block of \<open>main\<close>: it announces the row count and takes the branch the
  count selects. The banner is on the console by then.
\<close>

definition try_block ::
  "server \<Rightarrow> config \<Rightarrow> args \<Rightarrow> entropy \<Rightarrow> trace
     \<Rightarrow> (error + unit) \<times> int option \<times> trace \<times> msg list"
where
  "try_block srv cfg a en tr0 =
     (if args_rows a \<le> 1000000
      then whole_dataset srv cfg a en tr0 [Rule, Title, Rule, GeneratingRows (args_rows a)]
      else streamed srv cfg a en tr0 [Rule, Title, Rule, GeneratingRows (args_rows a)])"

text \<open>
  \<open>main\<close>: the banner, the loader built outside the \<open>try\<close> block (an exception
  there ends the process with a traceback), then the block. The exit status is 1 when
  an exception ended the run.
\<close>

record run =
  exit_status :: nat
  total_rows :: "int option"
  store :: trace
  console :: "msg list"

definition main :: "server \<Rightarrow> config \<Rightarrow> args \<Rightarrow> entropy \<Rightarrow> run" where
  "main srv cfg a en =
     (case connect srv [] of
        (Inl e, tr0) \<Rightarrow>
          \<lparr>exit_status = 1, total_rows = None, store = tr0, console = [Rule, Title, Rule]\<rparr>
      | (Inr _, tr0) \<Rightarrow>
          (case try_block srv cfg a en tr0 of
             (Inl e, t, tr, out) \<Rightarrow>
               \<lparr>exit_status = 1, total_rows = t, store = tr, console = out @ [ErrorReport e]\<rparr>
           | (Inr _, t, tr, out) \<Rightarrow>
               \<lparr>exit_status = 0, total_rows = t, store = tr, console = out @ [Elapsed, Rule]\<rparr>))"

section \<open>Reading a trace\<close>

text \<open>The batches the trace shows as sent to a table, in order, and those among them
  the store accepted.\<close>

fun inserts :: "string \<Rightarrow> string \<Rightarrow> trace \<Rightarrow> row list list" where
  "inserts db tbl [] = []"
| "inserts db tbl ((InsertRows db' tbl' rs, r) # tr) =
     (if db' = db \<and> tbl' = tbl then rs # inserts db tbl tr else inserts db tbl tr)"
| "inserts db tbl (_ # tr) = inserts db tbl tr"

text \<open>
  The rows a trace leaves in a table. The store is outside the repository; the spec takes
  a bulk insert as one atomic call, and so does this reading: the rows of an insert the
  store accepted are in the table, in the order sent, and an insert that raised left
  nothing.
\<close>

fun committed :: "string \<Rightarrow> string \<Rightarrow> trace \<Rightarrow> row list" where
  "committed db tbl [] = []"
| "committed db tbl ((InsertRows db' tbl' rs, Some res) # tr) =
     (if db' = db \<and> tbl' = tbl then rs @ committed db tbl tr else committed db tbl tr)"
| "committed db tbl (_ # tr) = committed db tbl tr"

text \<open>The calls that write: schema creation and inserts.\<close>

fun writes :: "call \<Rightarrow> bool" where
  "writes (CreateDatabase db) = True"
| "writes (CreateTable db tbl) = True"
| "writes (InsertRows db tbl rs) = True"
| "writes _ = False"

text \<open>The contiguous slices of at most \<open>b\<close> records a list falls into.\<close>

function slices :: "nat \<Rightarrow> 'a list \<Rightarrow> 'a list list" where
  "slices b xs = (if b = 0 \<or> xs = [] then [] else take b xs # slices b (drop b xs))"
  by pat_completeness auto
termination
  by (relation "measure (\<lambda>(b, xs). length xs)") auto

text \<open>The calls a trace shows as refused, and the calls that only read back for the log:
  those of \<open>show_table_structure\<close> and \<open>verify_data_count\<close>.\<close>

fun refused :: "trace \<Rightarrow> call list" where
  "refused [] = []"
| "refused ((c, None) # tr) = c # refused tr"
| "refused ((c, Some res) # tr) = refused tr"

fun reads_back :: "call \<Rightarrow> bool" where
  "reads_back (DescribeTable db tbl) = True"
| "reads_back (CountRows db tbl) = True"
| "reads_back (EventStats db tbl) = True"
| "reads_back _ = False"

text \<open>
  An operation that took the trace from \<open>tr\<close> to \<open>tr'\<close> and ended with \<open>res\<close> lets
  store failures surface when it only added calls and, unless every call the store
  refused was one that reads back for the log, it ended by raising the store's error.
\<close>

definition surfaced :: "(error + 'a) \<Rightarrow> trace \<Rightarrow> trace \<Rightarrow> bool" where
  "surfaced res tr tr' =
     (\<exists>new. tr' = tr @ new \<and> (list_all reads_back (refused new) \<or> res = Inl StoreError))"

text \<open>
  What the spec asks of \<open>load\<close> once the input is cut into batches: one bulk insert per
  batch, in the order received, ending at the first insert the store refuses.
\<close>

fun insert_each ::
  "server \<Rightarrow> string \<Rightarrow> string \<Rightarrow> row list list \<Rightarrow> trace \<Rightarrow> (error + unit) \<times> trace"
where
  "insert_each srv tbl db [] tr = (Inr (), tr)"
| "insert_each srv tbl db (s # ss) tr =
     (case execute srv (InsertRows db tbl s) tr of
        (None, tr') \<Rightarrow> (Inl StoreError, tr')
      | (Some _, tr') \<Rightarrow> insert_each srv tbl db ss tr')"

text \<open>Four servers to run the definitions against: one accepts every call, one refuses
  every call, one refuses the second insert it is sent and accepts the rest, one refuses
  every insert and accepts the rest.\<close>

definition accept_all :: server where
  "accept_all tr c = Some [[IntV 0]]"

definition refuse_all :: server where
  "refuse_all tr c = None"

definition refuse_second_insert :: server where
  "refuse_second_insert tr c =
     (case c of
        InsertRows db tbl rs \<Rightarrow> if length (inserts db tbl tr) = 1 then None else Some []
      | _ \<Rightarrow> Some [[IntV 0]])"

definition refuse_inserts :: server where
  "refuse_inserts tr c = (case c of InsertRows db tbl rs \<Rightarrow> None | _ \<Rightarrow> Some [[IntV 0]])"

definition example_row :: "nat \<Rightarrow> row" where
  "example_row k =
     \<lparr>date = 0, event = ''view'', device_id = k, event_time = int k,
      city = ''Moscow'', device_os = ''Android''\<rparr>"

text \<open>The command line \<open>--rows r --batch-size 4 --generate-only\<close>, with the table
  \<open>user_events\<close> of the database \<open>default\<close>, and the same without the flag.\<close>

definition generate_only_args :: "int \<Rightarrow> args" where
  "generate_only_args r =
     \<lparr>args_rows = r, args_batch_size = 4, args_table = ''user_events'',
      args_database = ''default'', args_generate_only = True\<rparr>"

definition loading_args :: "int \<Rightarrow> args" where
  "loading_args r =
     \<lparr>args_rows = r, args_batch_size = 4, args_table = ''user_events'',
      args_database = ''default'', args_generate_only = False\<rparr>"

text \<open>
  What the spec asks of the orchestrator is a sequence of store operations, each run on
  the trace the one before left, ending at the first that raises.
\<close>

fun run_all :: "(trace \<Rightarrow> (error + unit) \<times> trace) list \<Rightarrow> trace \<Rightarrow> (error + unit) \<times> trace" where
  "run_all [] tr = (Inr (), tr)"
| "run_all (f # fs) tr =
     (case f tr of (Inl e, tr') \<Rightarrow> (Inl e, tr') | (Inr _, tr') \<Rightarrow> run_all fs tr')"

text \<open>Every profile of a population has its creation date in the configured range.\<close>

definition dated :: "config \<Rightarrow> (nat \<rightharpoonup> profile) \<Rightarrow> bool" where
  "dated cfg profs \<longleftrightarrow>
     (\<forall>i p. profs i = Some p \<longrightarrow>
        start_date cfg \<le> created_date p \<and> created_date p \<le> end_date cfg)"

text \<open>A row is in range for a population when its device has a profile there, created
  no later than the row's date, and the date is no later than the configured end.\<close>

definition in_range :: "config \<Rightarrow> (nat \<rightharpoonup> profile) \<Rightarrow> row \<Rightarrow> bool" where
  "in_range cfg profs r =
     (case profs (device_id r) of
        None \<Rightarrow> False
      | Some p \<Rightarrow> created_date p \<le> date r \<and> date r \<le> end_date cfg)"

text \<open>A configuration and a pair of tapes to run the definitions on: ten rows in batches
  of four over a three-day range; both tapes count upwards.\<close>

definition example_config :: config where
  "example_config =
     \<lparr>num_rows = 10, batch_size = 4, start_date = 0, end_date = 2,
      CITIES = [''Moscow'', ''Kazan''],
      EVENTS = [''view'', ''purchase'', ''add_to_cart''],
      DEVICE_OS = [''Android'', ''iOS'']\<rparr>"

definition example_entropy :: entropy where
  "example_entropy = \<lparr>rand_tape = (\<lambda>k. k), uuid_tape = (\<lambda>k. k)\<rparr>"

section \<open>The device population\<close>

declare insert_slices.simps [simp del]

declare slices.simps [simp del]

lemma unique_devices_ge: "1000 \<le> unique_devices n"
  by (simp add: unique_devices_def)


lemma new_device_ids_length: "new_device_ids k en = (ids, en') \<Longrightarrow> length ids = k"
  by (induction k arbitrary: en ids en') (auto split: prod.splits simp: uuid4_def)


lemma choice_ok: "xs \<noteq> [] \<Longrightarrow> \<exists>x en'. choice xs en = Inr (x, en') \<and> x \<in> set xs"
  by (auto simp: choice_def split: prod.splits)

lemma randint_Inr:
  assumes "a \<le> b"
  shows "\<exists>x en'. randint a b en = Inr (x, en') \<and> a \<le> x \<and> x \<le> b"
proof -
  obtain d en' where d: "next_rand en = (d, en')" by (cases "next_rand en")
  have "d mod nat (b - a + 1) < nat (b - a + 1)" using assms by simp
  then have "int (d mod nat (b - a + 1)) \<le> b - a" using assms by linarith
  then show ?thesis using assms d by (simp add: randint_def)
qed

lemma random_date_Inr:
  assumes "s \<le> e"
  shows "\<exists>x en'. random_date s e en = Inr (x, en') \<and> s \<le> x \<and> x \<le> e"
proof -
  from assms have "0 \<le> e - s" by simp
  from randint_Inr[OF this, of en] obtain x en' where "randint 0 (e - s) en = Inr (x, en')" "0 \<le> x" "x \<le> e - s"
    by blast
  then show ?thesis by (simp add: random_date_def)
qed

lemma random_datetime_Inr:
  "\<exists>t en'. random_datetime d en = Inr (t, en') \<and> d * 86400 \<le> t \<and> t < (d + 1) * 86400"
proof -
  obtain h en1 where h: "randint 0 23 en = Inr (h, en1)" "0 \<le> h" "h \<le> 23"
    using randint_Inr[of 0 23 en] by auto
  obtain m en2 where m: "randint 0 59 en1 = Inr (m, en2)" "0 \<le> m" "m \<le> 59"
    using randint_Inr[of 0 59 en1] by auto
  obtain s en3 where s: "randint 0 59 en2 = Inr (s, en3)" "0 \<le> s" "s \<le> 59"
    using randint_Inr[of 0 59 en2] by auto
  show ?thesis using h m s by (simp add: random_datetime_def)
qed

lemma weighted_random_event_Inr:
  "length evs = 3 \<Longrightarrow> \<exists>ev en'. weighted_random_event evs en = Inr (ev, en') \<and> ev \<in> set evs"
  by (auto simp: weighted_random_event_def split: prod.splits)

lemma dated_upd:
  "dated cfg profs \<Longrightarrow> start_date cfg \<le> created_date p \<Longrightarrow> created_date p \<le> end_date cfg \<Longrightarrow>
   dated cfg (profs(i \<mapsto> p))"
  by (simp add: dated_def)

lemma assign_profiles_Inr:
  assumes "wf_config cfg"
  shows "dated cfg profs \<Longrightarrow>
         \<exists>profs' en'. assign_profiles cfg ids profs en = Inr (profs', en') \<and>
           dom profs' = dom profs \<union> set ids \<and> dated cfg profs'"
proof (induction ids arbitrary: profs en)
  case Nil
  then show ?case by simp
next
  case (Cons i ids)
  obtain c en1 where c: "choice (CITIES cfg) en = Inr (c, en1)"
    using choice_ok[of "CITIES cfg" en] assms by (auto simp: wf_config_def)
  obtain os en2 where os: "choice (DEVICE_OS cfg) en1 = Inr (os, en2)"
    using choice_ok[of "DEVICE_OS cfg" en1] assms by (auto simp: wf_config_def)
  obtain cd en3 where cd: "random_date (start_date cfg) (end_date cfg) en2 = Inr (cd, en3)"
      "start_date cfg \<le> cd" "cd \<le> end_date cfg"
    using random_date_Inr[of "start_date cfg" "end_date cfg" en2] assms by (auto simp: wf_config_def)
  let ?p = "\<lparr>profile_city = c, profile_device_os = os, created_date = cd\<rparr>"
  have "dated cfg (profs(i \<mapsto> ?p))"
    using Cons.prems cd(2,3) by (intro dated_upd) simp_all
  from Cons.IH[OF this, of en3] obtain profs' en' where
    r: "assign_profiles cfg ids (profs(i \<mapsto> ?p)) en3 = Inr (profs', en')"
       "dom profs' = dom (profs(i \<mapsto> ?p)) \<union> set ids" "dated cfg profs'"
    by blast
  have "assign_profiles cfg (i # ids) profs en = Inr (profs', en')"
    using c os cd r by simp
  moreover have "dom profs' = dom profs \<union> set (i # ids)" using r(2) by auto
  ultimately show ?case using r(3) by blast
qed

lemma population_Inr:
  assumes "wf_config cfg"
  shows "\<exists>ids profs en'. population cfg n en = Inr (ids, profs, en') \<and>
           length ids = nat n \<and> dom profs = set ids \<and> dated cfg profs"
proof -
  obtain ids en1 where i: "new_device_ids (nat n) en = (ids, en1)"
    by (cases "new_device_ids (nat n) en")
  have "dated cfg Map.empty" by (simp add: dated_def)
  from assign_profiles_Inr[OF assms this, of ids en1] obtain profs en2 where
    "assign_profiles cfg ids Map.empty en1 = Inr (profs, en2)" "dom profs = set ids" "dated cfg profs"
    by auto
  then show ?thesis using i new_device_ids_length[OF i] by (simp add: population_def)
qed

lemma gen_row_Inr:
  assumes "length (EVENTS cfg) = 3" "ids \<noteq> []" "set ids \<subseteq> dom profs" "dated cfg profs"
  shows "\<exists>r en'. gen_row cfg ids profs en = Inr (r, en') \<and>
           (\<exists>p. profs (device_id r) = Some p \<and> created_date p \<le> date r) \<and> date r \<le> end_date cfg \<and>
           date r * 86400 \<le> event_time r \<and> event_time r < (date r + 1) * 86400"
proof -
  obtain i en1 where i: "choice ids en = Inr (i, en1)" "i \<in> set ids"
    using choice_ok[OF assms(2), of en] by auto
  then obtain p where p: "profs i = Some p" using assms(3) by auto
  then have "created_date p \<le> end_date cfg" using assms(4) by (simp add: dated_def)
  from random_date_Inr[OF this, of en1] obtain d en2 where
    d: "random_date (created_date p) (end_date cfg) en1 = Inr (d, en2)" "created_date p \<le> d" "d \<le> end_date cfg"
    by auto
  obtain t en3 where t: "random_datetime d en2 = Inr (t, en3)" "d * 86400 \<le> t" "t < (d + 1) * 86400"
    using random_datetime_Inr[of d en2] by auto
  obtain ev en4 where ev: "weighted_random_event (EVENTS cfg) en3 = Inr (ev, en4)"
    using weighted_random_event_Inr[OF assms(1), of en3] by auto
  show ?thesis using i p d t ev by (simp add: gen_row_def)
qed

lemma randint_bounds: "randint a b en = Inr (x, en') \<Longrightarrow> a \<le> x \<and> x \<le> b"
proof -
  assume h: "randint a b en = Inr (x, en')"
  then have ab: "a \<le> b" by (auto simp: randint_def split: if_splits)
  from randint_Inr[OF this, of en] h show ?thesis by auto
qed

lemma random_date_bounds: "random_date s e en = Inr (d, en') \<Longrightarrow> s \<le> d \<and> d \<le> e"
  by (auto simp: random_date_def split: sum.splits dest!: randint_bounds)

lemma gen_row_sound:
  assumes "gen_row cfg ids profs en = Inr (r, en')"
  shows "in_range cfg profs r"
  using assms
  by (auto simp: gen_row_def in_range_def split: sum.splits option.splits dest!: random_date_bounds)

lemma gen_rows_sound:
  "gen_rows cfg ids profs n en = Inr (rs, en') \<Longrightarrow> length rs = n \<and> (\<forall>r\<in>set rs. in_range cfg profs r)"
proof (induction n arbitrary: en rs en')
  case 0
  then show ?case by simp
next
  case (Suc n)
  from Suc.prems obtain r en1 rs' where
    r: "gen_row cfg ids profs en = Inr (r, en1)" and
    rs': "gen_rows cfg ids profs n en1 = Inr (rs', en')" and eq: "rs = r # rs'"
    by (auto split: sum.splits)
  from Suc.IH[OF rs'] gen_row_sound[OF r] eq show ?case by simp
qed

lemma gen_rows_Inr:
  assumes "length (EVENTS cfg) = 3" "ids \<noteq> []" "set ids \<subseteq> dom profs" "dated cfg profs"
  shows "\<exists>rs en'. gen_rows cfg ids profs n en = Inr (rs, en')"
proof (induction n arbitrary: en)
  case 0
  show ?case by simp
next
  case (Suc n)
  obtain r en1 where r: "gen_row cfg ids profs en = Inr (r, en1)"
    using gen_row_Inr[OF assms, of en] by blast
  obtain rs en2 where "gen_rows cfg ids profs n en1 = Inr (rs, en2)"
    using Suc[of en1] by blast
  with r show ?case by simp
qed

lemma sort_values_event_time_Inr:
  "sort_values_event_time data = Inr df \<Longrightarrow>
     data \<noteq> [] \<and> length df = length data \<and> set df = set data \<and> sorted (map event_time df)"
  by (auto simp: sort_values_event_time_def split: if_splits)

lemma generate_dataframe_sound:
  assumes "generate_dataframe cfg (Some n) en = (out, Inr df)"
  shows "\<exists>ids profs en1. population cfg (unique_devices n) en = Inr (ids, profs, en1) \<and>
           0 < n \<and> int (length df) = n \<and> sorted (map event_time df) \<and>
           (\<forall>r\<in>set df. in_range cfg profs r)"
proof -
  from assms obtain ids profs en1 where p: "population cfg (unique_devices n) en = Inr (ids, profs, en1)"
    by (auto simp: generate_dataframe_def Let_def split: sum.splits)
  with assms obtain data en2 where d: "gen_rows cfg ids profs (nat n) en1 = Inr (data, en2)"
    by (auto simp: generate_dataframe_def Let_def split: sum.splits)
  with assms p have s: "sort_values_event_time data = Inr df"
    by (auto simp: generate_dataframe_def Let_def split: sum.splits)
  from gen_rows_sound[OF d] sort_values_event_time_Inr[OF s]
  have "length df = nat n" "df \<noteq> []" "sorted (map event_time df)" "\<forall>r\<in>set df. in_range cfg profs r"
    by auto
  then show ?thesis using p by (cases "0 < n") auto
qed

lemma population_ids_nonempty:
  "population cfg (unique_devices n) en = Inr (ids, profs, en1) \<Longrightarrow> length ids = nat (unique_devices n) \<and> ids \<noteq> []"
proof -
  assume a: "population cfg (unique_devices n) en = Inr (ids, profs, en1)"
  then obtain en0 where "new_device_ids (nat (unique_devices n)) en = (ids, en0)"
    by (auto simp: population_def split: prod.splits sum.splits)
  from new_device_ids_length[OF this] have "length ids = nat (unique_devices n)" .
  moreover have "0 < nat (unique_devices n)" using unique_devices_ge[of n] by simp
  ultimately show ?thesis by auto
qed

lemma generate_dataframe_Inr:
  assumes "wf_config cfg" "1 \<le> n"
  shows "\<exists>out df. generate_dataframe cfg (Some n) en = (out, Inr df)"
proof -
  obtain ids profs en1 where p: "population cfg (unique_devices n) en = Inr (ids, profs, en1)"
      "dom profs = set ids" "dated cfg profs"
    using population_Inr[OF assms(1), of "unique_devices n" en] by blast
  have ne: "ids \<noteq> []" using population_ids_nonempty[OF p(1)] by simp
  have ev: "length (EVENTS cfg) = 3" using assms(1) by (simp add: wf_config_def)
  obtain data en2 where d: "gen_rows cfg ids profs (nat n) en1 = Inr (data, en2)"
    using gen_rows_Inr[OF ev ne _ p(3), of "nat n" en1] p(2) by auto
  from gen_rows_sound[OF d] assms(2) have "data \<noteq> []" by auto
  then show ?thesis using p(1) d by (simp add: generate_dataframe_def sort_values_event_time_def Let_def)
qed

lemma generate_dataframe_zero:
  assumes "wf_config cfg" "n \<le> 0"
  shows "generate_dataframe cfg (Some n) en =
           ([GeneratingRows n, GeneratingDeviceIds, AssigningProfiles], Inl KeyError)"
proof -
  obtain ids profs en1 where p: "population cfg (unique_devices n) en = Inr (ids, profs, en1)"
    using population_Inr[OF assms(1), of "unique_devices n" en] by blast
  have "nat n = 0" using assms(2) by simp
  then show ?thesis using p by (simp add: generate_dataframe_def sort_values_event_time_def Let_def)
qed

lemma batches_from_sound:
  "\<forall>batch\<in>set (yields (batches_from cfg ids profs b n nb k j en)). \<forall>r\<in>set batch. in_range cfg profs r"
proof (induction k arbitrary: j en)
  case 0
  show ?case by simp
next
  case (Suc k)
  show ?case
  proof (cases "gen_rows cfg ids profs (nat (min b (n - j * b))) en")
    case (Inl e)
    then show ?thesis by simp
  next
    case (Inr x)
    obtain rs en1 where x: "x = (rs, en1)" by (cases x)
    from gen_rows_sound[OF Inr[unfolded x]] Suc[of "j + 1" en1] Inr x show ?thesis by simp
  qed
qed

lemma batches_from_sizes:
  assumes "length (EVENTS cfg) = 3" "ids \<noteq> []" "set ids \<subseteq> dom profs" "dated cfg profs"
  shows "raised (batches_from cfg ids profs b n nb k j en) = None \<and>
         map length (yields (batches_from cfg ids profs b n nb k j en)) =
           map (\<lambda>i. nat (min b (n - (j + int i) * b))) [0..<k]"
proof (induction k arbitrary: j en)
  case 0
  show ?case by simp
next
  case (Suc k)
  obtain rs en1 where g: "gen_rows cfg ids profs (nat (min b (n - j * b))) en = Inr (rs, en1)"
    using gen_rows_Inr[OF assms] by blast
  have l: "length rs = nat (min b (n - j * b))" using gen_rows_sound[OF g] by simp
  have "map (\<lambda>i. nat (min b (n - (j + int i) * b))) [0..<Suc k] =
        nat (min b (n - j * b)) # map (\<lambda>i. nat (min b (n - (j + 1 + int i) * b))) [0..<k]"
    by (simp add: upt_conv_Cons map_Suc_upt[symmetric] algebra_simps del: upt_Suc)
  then show ?case using g l Suc[of "j + 1" en1] by (simp del: upt_Suc)
qed

lemma generate_data_batches_sizes:
  assumes "wf_config cfg" "b \<noteq> 0"
  shows "raised (generate_data_batches cfg (Some b) en) = None \<and>
         map length (yields (generate_data_batches cfg (Some b) en)) =
           map (\<lambda>i. nat (min b (num_rows cfg - int i * b))) [0..<nat ((num_rows cfg + b - 1) div b)]"
proof -
  obtain ids profs en1 where p: "population cfg (unique_devices (num_rows cfg)) en = Inr (ids, profs, en1)"
      "dom profs = set ids" "dated cfg profs"
    using population_Inr[OF assms(1), of "unique_devices (num_rows cfg)" en] by blast
  have ne: "ids \<noteq> []" using population_ids_nonempty[OF p(1)] by simp
  have ev: "length (EVENTS cfg) = 3" using assms(1) by (simp add: wf_config_def)
  have sub: "set ids \<subseteq> dom profs" using p(2) by simp
  from batches_from_sizes[OF ev ne sub p(3), of b "num_rows cfg" "(num_rows cfg + b - 1) div b"
      "nat ((num_rows cfg + b - 1) div b)" 0 en1]
  show ?thesis using p(1) assms(2) by (simp add: generate_data_batches_def Let_def)
qed

lemma generate_data_batches_sound:
  assumes "population cfg (unique_devices (num_rows cfg)) en = Inr (ids, profs, en1)"
  shows "\<forall>batch\<in>set (yields (generate_data_batches cfg (Some b) en)). \<forall>r\<in>set batch. in_range cfg profs r"
  using assms batches_from_sound[of cfg ids profs b "num_rows cfg"]
  by (simp add: generate_data_batches_def Let_def)

lemma generate_data_batches_no_population:
  assumes "population cfg (unique_devices (num_rows cfg)) en = Inl e"
  shows "yields (generate_data_batches cfg (Some b) en) = []"
  using assms by (simp add: generate_data_batches_def Let_def)

lemma num_batches_eq:
  fixes n b :: int
  assumes "0 < b"
  shows "(n + b - 1) div b = (if n mod b = 0 then n div b else n div b + 1)"
proof -
  have r: "0 \<le> n mod b" "n mod b < b" using assms by simp_all
  have e: "n + b - 1 = (n mod b + b - 1) + (n div b) * b" by simp
  have "((n mod b + b - 1) + (n div b) * b) div b = (n mod b + b - 1) div b + n div b"
    using assms by simp
  with arg_cong[OF e, of "\<lambda>x. x div b"]
  have "(n + b - 1) div b = (n mod b + b - 1) div b + n div b" by simp
  moreover have "(n mod b + b - 1) div b = (if n mod b = 0 then 0 else 1)"
  proof (cases "n mod b = 0")
    case True
    then show ?thesis using assms by simp
  next
    case False
    then have "0 \<le> n mod b - 1" "n mod b - 1 < b" using r by linarith+
    then have "(n mod b - 1) div b = 0" by simp
    moreover have e2: "n mod b + b - 1 = (n mod b - 1) + 1 * b" by simp
    have "((n mod b - 1) + 1 * b) div b = (n mod b - 1) div b + 1"
      using assms by simp
    with arg_cong[OF e2, of "\<lambda>x. x div b"]
    have "(n mod b + b - 1) div b = (n mod b - 1) div b + 1" by simp
    ultimately show ?thesis using False by simp
  qed
  ultimately show ?thesis by simp
qed

lemma num_batches_ceiling:
  fixes n b :: int
  assumes "0 < b"
  shows "(n + b - 1) div b = \<lceil>real_of_int n / real_of_int b\<rceil>"
proof -
  have "\<lceil>real_of_int n / real_of_int b\<rceil> = - (- n div b)" by (rule ceiling_divide_eq_div)
  also have "\<dots> = (if n mod b = 0 then n div b else n div b + 1)"
    using assms by (simp add: zdiv_zminus1_eq_if)
  finally show ?thesis using num_batches_eq[OF assms, of n] by simp
qed

lemma chunk_full:
  fixes n b :: int
  assumes "0 < b" "0 \<le> i" "i + 1 < (n + b - 1) div b"
  shows "min b (n - i * b) = b"
proof -
  have "i + 1 \<le> n div b" using assms(3) num_batches_eq[OF assms(1), of n] by (auto split: if_splits)
  then have "(i + 1) * b \<le> (n div b) * b" using assms(1) by (simp add: mult_right_mono)
  also have "\<dots> \<le> n"
  proof -
    have "(n div b) * b + n mod b = n" by simp
    moreover have "0 \<le> n mod b" using assms(1) by simp
    ultimately show ?thesis by linarith
  qed
  finally show ?thesis by (simp add: algebra_simps)
qed

lemma chunk_last:
  fixes n b :: int
  assumes "0 < b" "0 < n"
  shows "min b (n - ((n + b - 1) div b - 1) * b) = (if n mod b = 0 then b else n mod b)"
proof -
  have n: "n = (n div b) * b + n mod b" by simp
  have r: "0 \<le> n mod b" "n mod b < b" using assms by simp_all
  show ?thesis
  proof (cases "n mod b = 0")
    case True
    then have "(n + b - 1) div b - 1 = n div b - 1" using num_batches_eq[OF assms(1), of n] by simp
    moreover have "n - (n div b - 1) * b = b" using n True by (simp add: algebra_simps)
    ultimately show ?thesis using True by simp
  next
    case False
    then have "(n + b - 1) div b - 1 = n div b" using num_batches_eq[OF assms(1), of n] by simp
    moreover have "n - (n div b) * b = n mod b" using n by (simp add: algebra_simps)
    ultimately show ?thesis using False r by simp
  qed
qed

section \<open>Streamed generation: the batches\<close>

lemma wf_example_config: "wf_config example_config"
  by (simp add: wf_config_def example_config_def)

lemma sum_list_const_upt:
  "(\<And>i. i < m \<Longrightarrow> f i = c) \<Longrightarrow> sum_list (map f [0..<m]) = m * (c::nat)"
  by (induction m) simp_all

lemma chunk_sizes:
  fixes n b :: int
  assumes "1 \<le> n" "1 \<le> b"
  defines "K \<equiv> nat ((n + b - 1) div b)"
  defines "f \<equiv> (\<lambda>i. nat (min b (n - int i * b)))"
  shows "int K = \<lceil>real_of_int n / real_of_int b\<rceil>"
    and "0 < K"
    and "i + 1 < K \<Longrightarrow> int (f i) = b"
    and "int (f (K - 1)) = (if n mod b = 0 then b else n mod b)"
    and "int (sum_list (map f [0..<K])) = n"
proof -
  have b: "0 < b" using assms(2) by simp
  have pos: "1 \<le> (n + b - 1) div b"
  proof -
    have "b \<le> n + b - 1" using assms(1) by simp
    then have "b div b \<le> (n + b - 1) div b" using b by (intro zdiv_mono1) simp_all
    then show ?thesis using b by simp
  qed
  then have K: "int K = (n + b - 1) div b" by (simp add: K_def)
  show c1: "int K = \<lceil>real_of_int n / real_of_int b\<rceil>"
    using K num_batches_ceiling[OF b, of n] by simp
  show "0 < K" using K pos by linarith
  have full: "int (f i) = b" if "i + 1 < K" for i
  proof -
    have "int i + 1 < (n + b - 1) div b" using that K by linarith
    from chunk_full[OF b _ this] show ?thesis using b by (simp add: f_def)
  qed
  show "i + 1 < K \<Longrightarrow> int (f i) = b" by (rule full)
  have km: "int (K - 1) = (n + b - 1) div b - 1" using K pos by linarith
  have m: "0 \<le> n mod b" using b by simp
  have "0 < (if n mod b = 0 then b else n mod b)" using b m by (auto simp: less_le)
  then show lst: "int (f (K - 1)) = (if n mod b = 0 then b else n mod b)"
    using chunk_last[OF b, of n] assms(1) km by (simp add: f_def)
  have "[0..<K] = [0..<K - 1] @ [K - 1]" using \<open>0 < K\<close>
    by (metis Suc_pred' upt_Suc_append zero_le)
  then have "sum_list (map f [0..<K]) = sum_list (map f [0..<K - 1]) + f (K - 1)" by simp
  also have "sum_list (map f [0..<K - 1]) = (K - 1) * nat b"
  proof (rule sum_list_const_upt)
    fix i assume "i < K - 1"
    then have "i + 1 < K" by simp
    from full[OF this] show "f i = nat b" by simp
  qed
  finally have "int (sum_list (map f [0..<K])) = int (K - 1) * b + int (f (K - 1))"
    using b by simp
  also have "\<dots> = n"
  proof -
    have n: "(n div b) * b + n mod b = n" by simp
    show ?thesis
    proof (cases "n mod b = 0")
      case True
      then have "int (K - 1) = n div b - 1" using km num_batches_eq[OF b, of n] by simp
      then have "int (K - 1) * b + b = (n div b - 1) * b + b" by (simp only:)
      also have "\<dots> = (n div b) * b" by (simp add: algebra_simps)
      finally have "int (K - 1) * b + b = (n div b) * b" .
      moreover have "int (f (K - 1)) = b" using lst True by simp
      ultimately show ?thesis using True n by simp
    next
      case False
      then have "int (K - 1) = n div b" using km num_batches_eq[OF b, of n] by simp
      moreover have "int (f (K - 1)) = n mod b" using lst False by simp
      ultimately show ?thesis using n by simp
    qed
  qed
  finally show "int (sum_list (map f [0..<K])) = n" .
qed

text \<open>
  Claim C4. For a total row count \<open>N \<ge> 1\<close> (the configured \<open>num_rows\<close>) and a batch
  size \<open>B \<ge> 1\<close>, streamed generation ends without an exception after yielding exactly
  \<open>ceil(N / B)\<close> batches; every batch but the last has \<open>B\<close> records, the last has
  \<open>N mod B\<close> records, or \<open>B\<close> when \<open>B\<close> divides \<open>N\<close>, and the batches hold \<open>N\<close>
  records together.
\<close>

theorem streamed_batch_sizes:
  assumes "wf_config cfg" "1 \<le> num_rows cfg" "1 \<le> b"
  shows "raised (generate_data_batches cfg (Some b) en) = None \<and>
         int (length (yields (generate_data_batches cfg (Some b) en))) =
           \<lceil>real_of_int (num_rows cfg) / real_of_int b\<rceil> \<and>
         (\<forall>i. i + 1 < length (yields (generate_data_batches cfg (Some b) en)) \<longrightarrow>
              int (length (yields (generate_data_batches cfg (Some b) en) ! i)) = b) \<and>
         int (length (last (yields (generate_data_batches cfg (Some b) en)))) =
           (if num_rows cfg mod b = 0 then b else num_rows cfg mod b) \<and>
         int (length (concat (yields (generate_data_batches cfg (Some b) en)))) = num_rows cfg"
proof -
  let ?n = "num_rows cfg"
  let ?bs = "yields (generate_data_batches cfg (Some b) en)"
  let ?K = "nat ((?n + b - 1) div b)"
  let ?f = "\<lambda>i. nat (min b (?n - int i * b))"
  have b0: "b \<noteq> 0" using assms(3) by simp
  from generate_data_batches_sizes[OF assms(1) b0, of en]
  have r: "raised (generate_data_batches cfg (Some b) en) = None"
    and m: "map length ?bs = map ?f [0..<?K]" by simp_all
  note cs = chunk_sizes[OF assms(2,3)]
  have len: "length ?bs = ?K" using arg_cong[OF m, of length] by simp
  have nth: "length (?bs ! i) = ?f i" if "i < ?K" for i
  proof -
    have "map length ?bs ! i = map ?f [0..<?K] ! i" using m by simp
    then show ?thesis using that len by simp
  qed
  have ne: "?bs \<noteq> []" using len cs(2) by auto
  have c2: "int (length ?bs) = \<lceil>real_of_int ?n / real_of_int b\<rceil>" using len cs(1) by simp
  have c3: "\<forall>i. i + 1 < length ?bs \<longrightarrow> int (length (?bs ! i)) = b"
  proof (intro allI impI)
    fix i assume i: "i + 1 < length ?bs"
    then have "i < ?K" "i + 1 < ?K" using len by simp_all
    from nth[OF this(1)] cs(3)[OF this(2)] show "int (length (?bs ! i)) = b" by simp
  qed
  have "last ?bs = ?bs ! (?K - 1)" using ne len by (simp add: last_conv_nth)
  moreover have "?K - 1 < ?K" using cs(2) by simp
  ultimately have c4: "int (length (last ?bs)) = (if ?n mod b = 0 then b else ?n mod b)"
    using nth[of "?K - 1"] cs(4) by simp
  have "length (concat ?bs) = sum_list (map length ?bs)" by (simp add: length_concat)
  then have c5: "int (length (concat ?bs)) = ?n" using m cs(5) by simp
  show ?thesis using r c2 c3 c4 c5 by blast
qed

lemma three_list: "length xs = 3 \<Longrightarrow> \<exists>x y z. xs = [x, y, z]"
  by (cases xs; cases "tl xs"; cases "tl (tl xs)") auto

text \<open>Ten rows in batches of four come as batches of four, four and two.\<close>

theorem streamed_batch_sizes_witness:
  "wf_config example_config \<and> 1 \<le> num_rows example_config \<and> (1::int) \<le> 4 \<and>
   raised (generate_data_batches example_config (Some 4) example_entropy) = None \<and>
   map length (yields (generate_data_batches example_config (Some 4) example_entropy)) = [4, 4, 2]"
proof -
  let ?bs = "yields (generate_data_batches example_config (Some 4) example_entropy)"
  have n: "num_rows example_config = 10" by (simp add: example_config_def)
  have h: "wf_config example_config" "1 \<le> num_rows example_config" "(1::int) \<le> 4"
    using wf_example_config n by simp_all
  have c: "\<lceil>real_of_int (num_rows example_config) / real_of_int 4\<rceil> = 3"
    unfolding num_batches_ceiling[of 4 "num_rows example_config", simplified, symmetric] n by simp
  note t = streamed_batch_sizes[OF h, of example_entropy, unfolded c]
  have r: "raised (generate_data_batches example_config (Some 4) example_entropy) = None"
    using t by (rule conjunct1)
  have l: "length ?bs = 3" using t by linarith
  have f: "\<forall>i. i + 1 < length ?bs \<longrightarrow> int (length (?bs ! i)) = 4"
    using t by blast
  have "int (length (last ?bs)) = (if num_rows example_config mod 4 = 0 then 4 else num_rows example_config mod 4)"
    using t by blast
  then have tl: "int (length (last ?bs)) = 2" unfolding n by simp
  from three_list[OF l] obtain x y z where bs: "?bs = [x, y, z]" by blast
  have "length (?bs ! 0) = 4" "length (?bs ! 1) = 4" using f l by auto
  with tl have "map length ?bs = [4, 4, 2]" unfolding bs by simp
  with h r show ?thesis by blast
qed

section \<open>The size of the device population\<close>






lemma in_range_iff:
  "in_range cfg profs r \<longleftrightarrow>
     (\<exists>p. profs (device_id r) = Some p \<and> created_date p \<le> date r \<and> date r \<le> end_date cfg)"
  by (simp add: in_range_def split: option.splits)





section \<open>Event dates\<close>

text \<open>
  Claim C5. Every record either generator produces has an event date no earlier than the
  creation date of the device that owns it (the profile stored under the record's device
  identifier) and no later than the configured end date. In the streamed mode this holds
  for every record of every batch yielded; when the population cannot be built, no batch
  is yielded at all.
\<close>

theorem event_dates_in_range:
  "(generate_dataframe cfg (Some n) en = (out, Inr df) \<longrightarrow>
      (\<exists>ids profs en1. population cfg (unique_devices n) en = Inr (ids, profs, en1) \<and>
         (\<forall>r\<in>set df. \<exists>p. profs (device_id r) = Some p \<and>
              created_date p \<le> date r \<and> date r \<le> end_date cfg))) \<and>
   (population cfg (unique_devices (num_rows cfg)) en = Inr (ids', profs', en') \<longrightarrow>
      (\<forall>batch\<in>set (yields (generate_data_batches cfg (Some b) en)). \<forall>r\<in>set batch.
          \<exists>p. profs' (device_id r) = Some p \<and>
              created_date p \<le> date r \<and> date r \<le> end_date cfg)) \<and>
   (population cfg (unique_devices (num_rows cfg)) en = Inl e \<longrightarrow>
      yields (generate_data_batches cfg (Some b) en) = [])"
proof (intro conjI impI)
  assume "generate_dataframe cfg (Some n) en = (out, Inr df)"
  from generate_dataframe_sound[OF this]
  show "\<exists>ids profs en1. population cfg (unique_devices n) en = Inr (ids, profs, en1) \<and>
         (\<forall>r\<in>set df. \<exists>p. profs (device_id r) = Some p \<and>
              created_date p \<le> date r \<and> date r \<le> end_date cfg)"
    by (simp add: in_range_iff) blast
next
  assume "population cfg (unique_devices (num_rows cfg)) en = Inr (ids', profs', en')"
  from generate_data_batches_sound[OF this, of b]
  show "\<forall>batch\<in>set (yields (generate_data_batches cfg (Some b) en)). \<forall>r\<in>set batch.
          \<exists>p. profs' (device_id r) = Some p \<and>
              created_date p \<le> date r \<and> date r \<le> end_date cfg"
    by (simp add: in_range_iff)
next
  assume "population cfg (unique_devices (num_rows cfg)) en = Inl e"
  then show "yields (generate_data_batches cfg (Some b) en) = []"
    by (rule generate_data_batches_no_population)
qed

lemma example_yields_nonempty:
  "yields (generate_data_batches example_config (Some 4) example_entropy) \<noteq> []"
proof -
  have b: "(4::int) \<noteq> 0" by simp
  from generate_data_batches_sizes[OF wf_example_config b, of example_entropy]
  have "map length (yields (generate_data_batches example_config (Some 4) example_entropy)) =
          map (\<lambda>i. nat (min 4 (10 - int i * 4))) [0..<nat ((10 + 4 - 1) div 4)]"
    by (simp add: example_config_def)
  also have "nat (((10::int) + 4 - 1) div 4) = 3" by simp
  finally have "length (yields (generate_data_batches example_config (Some 4) example_entropy)) = 3"
    using length_map[of length "yields (generate_data_batches example_config (Some 4) example_entropy)"]
    by simp
  then show ?thesis by auto
qed

text \<open>One row asked of the example run, and its streamed batches.\<close>

theorem event_dates_in_range_witness:
  "(\<exists>out df ids profs en1.
      generate_dataframe example_config (Some 1) example_entropy = (out, Inr df) \<and> df \<noteq> [] \<and>
      population example_config (unique_devices 1) example_entropy = Inr (ids, profs, en1) \<and>
      (\<forall>r\<in>set df. \<exists>p. profs (device_id r) = Some p \<and>
           created_date p \<le> date r \<and> date r \<le> end_date example_config)) \<and>
   (\<exists>ids' profs' en'.
      population example_config (unique_devices (num_rows example_config)) example_entropy =
        Inr (ids', profs', en') \<and>
      yields (generate_data_batches example_config (Some 4) example_entropy) \<noteq> [] \<and>
      (\<forall>batch\<in>set (yields (generate_data_batches example_config (Some 4) example_entropy)).
         \<forall>r\<in>set batch. \<exists>p. profs' (device_id r) = Some p \<and>
           created_date p \<le> date r \<and> date r \<le> end_date example_config))"
proof (intro conjI)
  obtain out df where g: "generate_dataframe example_config (Some 1) example_entropy = (out, Inr df)"
    using generate_dataframe_Inr[OF wf_example_config, of 1 example_entropy] by auto
  from generate_dataframe_sound[OF g] have ne: "df \<noteq> []" by auto
  from event_dates_in_range[of example_config 1 example_entropy out df] g ne
  show "\<exists>out df ids profs en1.
      generate_dataframe example_config (Some 1) example_entropy = (out, Inr df) \<and> df \<noteq> [] \<and>
      population example_config (unique_devices 1) example_entropy = Inr (ids, profs, en1) \<and>
      (\<forall>r\<in>set df. \<exists>p. profs (device_id r) = Some p \<and>
           created_date p \<le> date r \<and> date r \<le> end_date example_config)"
    by blast
next
  obtain ids' profs' en' where
    p: "population example_config (unique_devices (num_rows example_config)) example_entropy =
          Inr (ids', profs', en')"
    using population_Inr[OF wf_example_config] by blast
  from event_dates_in_range[of example_config _ example_entropy _ _ ids' profs' en' 4] p
    example_yields_nonempty
  show "\<exists>ids' profs' en'.
      population example_config (unique_devices (num_rows example_config)) example_entropy =
        Inr (ids', profs', en') \<and>
      yields (generate_data_batches example_config (Some 4) example_entropy) \<noteq> [] \<and>
      (\<forall>batch\<in>set (yields (generate_data_batches example_config (Some 4) example_entropy)).
         \<forall>r\<in>set batch. \<exists>p. profs' (device_id r) = Some p \<and>
           created_date p \<le> date r \<and> date r \<le> end_date example_config)"
    by blast
qed

section \<open>Whole-dataset generation: count and order\<close>

text \<open>
  For a requested count \<open>N \<ge> 1\<close> and the configuration the spec describes,
  \<open>generate_dataframe\<close> returns exactly \<open>N\<close> records in non-decreasing order of
  event timestamp.
\<close>

lemma generate_dataframe_count_sorted:
  assumes "wf_config cfg" "1 \<le> n"
  shows "\<exists>out df. generate_dataframe cfg (Some n) en = (out, Inr df) \<and>
           int (length df) = n \<and> sorted (map event_time df)"
proof -
  obtain out df where g: "generate_dataframe cfg (Some n) en = (out, Inr df)"
    using generate_dataframe_Inr[OF assms, of en] by blast
  from generate_dataframe_sound[OF g] g show ?thesis by blast
qed

text \<open>
  Claim C6 at \<open>N = 0\<close>. No row is generated, the frame built from the empty list has
  no column \<open>event_time\<close>, and \<open>sort_values\<close> raises \<open>KeyError\<close>: the call returns no
  frame, where the claim has it return the empty one.
\<close>

theorem generate_dataframe_zero_rows:
  "generate_dataframe example_config (Some 0) example_entropy =
     ([GeneratingRows 0, GeneratingDeviceIds, AssigningProfiles], Inl KeyError)"
  using generate_dataframe_zero[OF wf_example_config, of 0 example_entropy] by simp

section \<open>The loader: traces\<close>

lemma inserts_append: "inserts db tbl (tr @ tr') = inserts db tbl tr @ inserts db tbl tr'"
  by (induction db tbl tr rule: inserts.induct) simp_all

lemma committed_append: "committed db tbl (tr @ tr') = committed db tbl tr @ committed db tbl tr'"
  by (induction db tbl tr rule: committed.induct) simp_all

lemma refused_append: "refused (tr @ tr') = refused tr @ refused tr'"
  by (induction tr rule: refused.induct) simp_all

lemma slices_concat: "0 < b \<Longrightarrow> concat (slices b xs) = xs"
proof (induction b xs rule: slices.induct)
  case (1 b xs)
  show ?case
  proof (cases "xs = []")
    case True
    then show ?thesis by (simp add: slices.simps)
  next
    case False
    with 1 have "concat (slices b (drop b xs)) = drop b xs" by simp
    with False 1(2) show ?thesis by (subst slices.simps) simp
  qed
qed

lemma slices_bounds: "0 < b \<Longrightarrow> s \<in> set (slices b xs) \<Longrightarrow> s \<noteq> [] \<and> length s \<le> b"
proof (induction b xs rule: slices.induct)
  case (1 b xs)
  show ?case
  proof (cases "xs = []")
    case True
    with 1(3) show ?thesis by (simp add: slices.simps)
  next
    case False
    from 1(3) False 1(2) have "s = take b xs \<or> s \<in> set (slices b (drop b xs))"
      by (subst (asm) slices.simps) simp
    then show ?thesis
    proof
      assume "s = take b xs"
      with False 1(2) show ?thesis by simp
    next
      assume "s \<in> set (slices b (drop b xs))"
      with 1(1)[OF _ 1(2)] False 1(2) show ?thesis by simp
    qed
  qed
qed

lemma slices_drop:
  "0 < b \<Longrightarrow> i < length data \<Longrightarrow>
   slices b (drop i data) = take b (drop i data) # slices b (drop (i + b) data)"
  by (subst slices.simps) (simp add: add.commute)

lemma slices_Nil: "slices b [] = []"
  by (subst slices.simps) simp

lemma insert_slices_eq:
  "0 < b \<Longrightarrow>
   insert_slices srv tbl db data b i tr = insert_each srv tbl db (slices b (drop i data)) tr"
proof (induction srv tbl db data b i tr rule: insert_slices.induct)
  case (1 srv tbl db data b i tr)
  show ?case
  proof (cases "length data \<le> i")
    case True
    then show ?thesis by (subst insert_slices.simps) (simp add: slices_Nil)
  next
    case False
    then have i: "i < length data" by simp
    show ?thesis
    proof (cases "srv tr (InsertRows db tbl (take b (drop i data)))")
      case None
      then show ?thesis using 1(2) i
        by (subst insert_slices.simps) (simp add: slices_drop execute_def)
    next
      case (Some res)
      have e: "execute srv (InsertRows db tbl (take b (drop i data))) tr =
                 (Some res, tr @ [(InsertRows db tbl (take b (drop i data)), Some res)])"
        using Some by (simp add: execute_def)
      from 1(1)[OF _ e[symmetric] refl 1(2)] False 1(2)
      have "insert_slices srv tbl db data b (i + b)
              (tr @ [(InsertRows db tbl (take b (drop i data)), Some res)]) =
            insert_each srv tbl db (slices b (drop (i + b) data))
              (tr @ [(InsertRows db tbl (take b (drop i data)), Some res)])"
        by simp
      then show ?thesis using 1(2) i e
        by (subst insert_slices.simps) (simp add: slices_drop)
    qed
  qed
qed

lemma insert_each_trace:
  "insert_each srv tbl db ss tr = (res, tr') \<Longrightarrow>
   \<exists>new. tr' = tr @ new \<and>
     ((res = Inr () \<and> map fst new = map (InsertRows db tbl) ss \<and> refused new = [] \<and>
       committed db tbl new = concat ss) \<or>
      (res = Inl StoreError \<and>
       (\<exists>k<length ss. map fst new = map (InsertRows db tbl) (take (Suc k) ss) \<and>
          refused new = [InsertRows db tbl (ss ! k)] \<and>
          committed db tbl new = concat (take k ss))))"
proof (induction ss arbitrary: tr)
  case Nil
  then show ?case by simp
next
  case (Cons s ss)
  show ?case
  proof (cases "srv tr (InsertRows db tbl s)")
    case None
    with Cons.prems have "res = Inl StoreError" "tr' = tr @ [(InsertRows db tbl s, None)]"
      by (simp_all add: execute_def)
    then show ?thesis by (intro exI[of _ "[(InsertRows db tbl s, None)]"]) auto
  next
    case (Some r)
    let ?e = "(InsertRows db tbl s, Some r)"
    from Cons.prems Some have "insert_each srv tbl db ss (tr @ [?e]) = (res, tr')"
      by (simp add: execute_def)
    from Cons.IH[OF this] obtain new where
      n: "tr' = (tr @ [?e]) @ new" and
      d: "(res = Inr () \<and> map fst new = map (InsertRows db tbl) ss \<and> refused new = [] \<and>
            committed db tbl new = concat ss) \<or>
          (res = Inl StoreError \<and>
           (\<exists>k<length ss. map fst new = map (InsertRows db tbl) (take (Suc k) ss) \<and>
              refused new = [InsertRows db tbl (ss ! k)] \<and>
              committed db tbl new = concat (take k ss)))"
      by blast
    from d show ?thesis
    proof
      assume "res = Inr () \<and> map fst new = map (InsertRows db tbl) ss \<and> refused new = [] \<and>
            committed db tbl new = concat ss"
      then show ?thesis using n by (intro exI[of _ "?e # new"]) simp
    next
      assume "res = Inl StoreError \<and>
           (\<exists>k<length ss. map fst new = map (InsertRows db tbl) (take (Suc k) ss) \<and>
              refused new = [InsertRows db tbl (ss ! k)] \<and>
              committed db tbl new = concat (take k ss))"
      then obtain k where k: "res = Inl StoreError" "k < length ss"
          "map fst new = map (InsertRows db tbl) (take (Suc k) ss)"
          "refused new = [InsertRows db tbl (ss ! k)]"
          "committed db tbl new = concat (take k ss)"
        by blast
      have "Suc k < length (s # ss)" using k(2) by simp
      moreover have "map fst (?e # new) = map (InsertRows db tbl) (take (Suc (Suc k)) (s # ss))"
        using k(3) by simp
      moreover have "refused (?e # new) = [InsertRows db tbl ((s # ss) ! Suc k)]"
        using k(4) by simp
      moreover have "committed db tbl (?e # new) = concat (take (Suc k) (s # ss))"
        using k(5) by simp
      ultimately have "\<exists>j<length (s # ss).
          map fst (?e # new) = map (InsertRows db tbl) (take (Suc j) (s # ss)) \<and>
          refused (?e # new) = [InsertRows db tbl ((s # ss) ! j)] \<and>
          committed db tbl (?e # new) = concat (take j (s # ss))"
        by (intro exI[of _ "Suc k"] conjI)
      moreover have "tr' = tr @ (?e # new)" using n by simp
      ultimately show ?thesis using k(1) by (intro exI[of _ "?e # new"]) (rule conjI, assumption, rule disjI2, rule conjI)
    qed
  qed
qed

lemma reads_back_quiet:
  "list_all reads_back (map fst v) \<Longrightarrow>
     committed db tbl v = [] \<and> inserts db tbl v = [] \<and> filter writes (map fst v) = [] \<and>
     filter (\<lambda>c. \<not> reads_back c) (refused v) = []"
proof (induction v)
  case Nil
  show ?case by simp
next
  case (Cons x v)
  obtain c r where x: "x = (c, r)" by (cases x)
  from Cons show ?case by (cases c; cases r) (simp_all add: x)
qed

lemma verify_data_count_trace:
  "verify_data_count srv tbl db tr = (res, tr') \<Longrightarrow>
     res = Inr () \<and> (\<exists>v. tr' = tr @ v \<and> list_all reads_back (map fst v))"
  by (auto simp: verify_data_count_def execute_def split: option.splits if_splits)

lemma show_table_structure_trace:
  "show_table_structure srv tbl db tr = (res, tr') \<Longrightarrow>
     res = Inr () \<and> (\<exists>v. tr' = tr @ v \<and> list_all reads_back (map fst v))"
  by (auto simp: show_table_structure_def execute_def)

lemma writes_inserts: "filter writes (map (InsertRows db tbl) ss) = map (InsertRows db tbl) ss"
  by (induction ss) simp_all

section \<open>Loading a frame in batches\<close>

text \<open>
  Claim C7, amended. For a batch size \<open>B \<ge> 1\<close>, \<open>load_data\<close> cuts the input into
  contiguous non-empty slices of at most \<open>B\<close> records that make up the input, and sends
  one bulk insert per slice, in order. When no insert is refused, these inserts are the
  only writes of the call and the whole input is committed. When the insert of slice
  \<open>k\<close> (counted from 0) is refused, the call raises the store's error; its calls are
  exactly the inserts of slices \<open>0..k\<close>, each sent once, so nothing follows the refused
  insert and it is not sent again; and the rows of slices \<open>0..k-1\<close> stay committed,
  after everything committed before the call.
\<close>

theorem load_data_batches:
  assumes "1 \<le> b" and "load_data srv df tbl db b tr = (res, tr')"
  shows "concat (slices (nat b) df) = df \<and>
         (\<forall>s\<in>set (slices (nat b) df). s \<noteq> [] \<and> int (length s) \<le> b) \<and>
         (\<exists>new. tr' = tr @ new \<and>
            committed db tbl tr' = committed db tbl tr @ committed db tbl new \<and>
            ((res = Inr () \<and>
              filter writes (map fst new) = map (InsertRows db tbl) (slices (nat b) df) \<and>
              filter (\<lambda>c. \<not> reads_back c) (refused new) = [] \<and>
              committed db tbl new = df) \<or>
             (res = Inl StoreError \<and>
              (\<exists>k<length (slices (nat b) df).
                 map fst new = map (InsertRows db tbl) (take (Suc k) (slices (nat b) df)) \<and>
                 refused new = [InsertRows db tbl (slices (nat b) df ! k)] \<and>
                 committed db tbl new = concat (take k (slices (nat b) df))))))"
proof -
  let ?ss = "slices (nat b) df"
  have b: "0 < nat b" using assms(1) by simp
  have c: "concat ?ss = df" by (rule slices_concat[OF b])
  have bd: "\<forall>s\<in>set ?ss. s \<noteq> [] \<and> int (length s) \<le> b"
  proof
    fix s assume "s \<in> set ?ss"
    from slices_bounds[OF b this] have "s \<noteq> []" "length s \<le> nat b" by simp_all
    then show "s \<noteq> [] \<and> int (length s) \<le> b" using assms(1) by linarith
  qed
  have tr: "\<exists>new. tr' = tr @ new \<and>
            committed db tbl tr' = committed db tbl tr @ committed db tbl new \<and>
            ((res = Inr () \<and>
              filter writes (map fst new) = map (InsertRows db tbl) ?ss \<and>
              filter (\<lambda>c. \<not> reads_back c) (refused new) = [] \<and>
              committed db tbl new = df) \<or>
             (res = Inl StoreError \<and>
              (\<exists>k<length ?ss.
                 map fst new = map (InsertRows db tbl) (take (Suc k) ?ss) \<and>
                 refused new = [InsertRows db tbl (?ss ! k)] \<and>
                 committed db tbl new = concat (take k ?ss))))"
  proof (cases "df = []")
    case True
    then have "res = Inr ()" "tr' = tr" using assms(2) by (simp_all add: load_data_def)
    then show ?thesis using True by (intro exI[of _ "[]"]) (simp add: slices_Nil)
  next
    case False
    obtain r1 tr1 where ie: "insert_each srv tbl db ?ss tr = (r1, tr1)"
      by (cases "insert_each srv tbl db ?ss tr")
    from insert_each_trace[OF ie] obtain new where
      n: "tr1 = tr @ new" and
      d: "(r1 = Inr () \<and> map fst new = map (InsertRows db tbl) ?ss \<and> refused new = [] \<and>
            committed db tbl new = concat ?ss) \<or>
          (r1 = Inl StoreError \<and>
           (\<exists>k<length ?ss. map fst new = map (InsertRows db tbl) (take (Suc k) ?ss) \<and>
              refused new = [InsertRows db tbl (?ss ! k)] \<and>
              committed db tbl new = concat (take k ?ss)))"
      by blast
    have ld: "load_data srv df tbl db b tr =
                (case (r1, tr1) of (Inl e, t) \<Rightarrow> (Inl e, t)
                 | (Inr _, t) \<Rightarrow> verify_data_count srv tbl db t)"
      using False assms(1) ie by (simp add: load_data_def insert_slices_eq[OF b])
    from d show ?thesis
    proof
      assume ok: "r1 = Inr () \<and> map fst new = map (InsertRows db tbl) ?ss \<and> refused new = [] \<and>
            committed db tbl new = concat ?ss"
      then have "verify_data_count srv tbl db tr1 = (res, tr')" using ld assms(2) by simp
      from verify_data_count_trace[OF this] obtain v where
        v: "res = Inr ()" "tr' = tr1 @ v" "list_all reads_back (map fst v)" by blast
      note q = reads_back_quiet[OF v(3), of db tbl]
      have "tr' = tr @ (new @ v)" using v(2) n by simp
      moreover have "committed db tbl tr' = committed db tbl tr @ committed db tbl (new @ v)"
        using v(2) n by (simp add: committed_append)
      moreover have "filter writes (map fst (new @ v)) = map (InsertRows db tbl) ?ss"
        using ok q by (simp add: writes_inserts)
      moreover have "filter (\<lambda>c. \<not> reads_back c) (refused (new @ v)) = []"
        using ok q by (simp add: refused_append)
      moreover have "committed db tbl (new @ v) = df"
        using ok q c by (simp add: committed_append)
      ultimately show ?thesis using v(1)
        by (intro exI[of _ "new @ v"]) (rule conjI, assumption, rule conjI, assumption, rule disjI1, intro conjI)
    next
      assume bad: "r1 = Inl StoreError \<and>
           (\<exists>k<length ?ss. map fst new = map (InsertRows db tbl) (take (Suc k) ?ss) \<and>
              refused new = [InsertRows db tbl (?ss ! k)] \<and>
              committed db tbl new = concat (take k ?ss))"
      then have "res = Inl StoreError" "tr' = tr1" using ld assms(2) by simp_all
      moreover have "committed db tbl tr1 = committed db tbl tr @ committed db tbl new"
        using n by (simp add: committed_append)
      ultimately show ?thesis using bad n
        by (intro exI[of _ new]) blast
    qed
  qed
  from c bd tr show ?thesis by (intro conjI)
qed

text \<open>Three rows in batches of one, the second insert refused: the call raises, the first
  row is committed, the third is never sent.\<close>

theorem load_data_batches_witness:
  "(1::int) \<le> 1 \<and>
   load_data refuse_second_insert [example_row 1, example_row 2, example_row 3]
      ''user_events'' ''default'' 1 [] =
     (Inl StoreError,
      [(InsertRows ''default'' ''user_events'' [example_row 1], Some []),
       (InsertRows ''default'' ''user_events'' [example_row 2], None)]) \<and>
   slices (nat 1) [example_row 1, example_row 2, example_row 3] =
     [[example_row 1], [example_row 2], [example_row 3]] \<and>
   concat (slices (nat 1) [example_row 1, example_row 2, example_row 3]) =
     [example_row 1, example_row 2, example_row 3] \<and>
   committed ''default'' ''user_events''
      [(InsertRows ''default'' ''user_events'' [example_row 1], Some []),
       (InsertRows ''default'' ''user_events'' [example_row 2], None)] = [example_row 1]"
proof -
  have h: "(1::int) \<le> 1" by simp
  have eq: "load_data refuse_second_insert [example_row 1, example_row 2, example_row 3]
      ''user_events'' ''default'' 1 [] =
     (Inl StoreError,
      [(InsertRows ''default'' ''user_events'' [example_row 1], Some []),
       (InsertRows ''default'' ''user_events'' [example_row 2], None)])"
    by (simp add: load_data_def insert_slices.simps execute_def refuse_second_insert_def)
  have sl: "slices (nat 1) [example_row 1, example_row 2, example_row 3] =
     [[example_row 1], [example_row 2], [example_row 3]]"
    by (simp add: slices.simps)
  from load_data_batches[OF h eq]
  have c: "concat (slices (nat 1) [example_row 1, example_row 2, example_row 3]) =
     [example_row 1, example_row 2, example_row 3]" by (rule conjunct1)
  have cm: "committed ''default'' ''user_events''
      [(InsertRows ''default'' ''user_events'' [example_row 1], Some []),
       (InsertRows ''default'' ''user_events'' [example_row 2], None)] = [example_row 1]"
    by simp
  from h eq sl c cm show ?thesis by (intro conjI)
qed

text \<open>
  The claim as written covers every batch size. With a batch size of 0 the call raises
  \<open>ZeroDivisionError\<close> while counting the batches, before any insert is sent; with a
  negative batch size the range of the loop is empty, so the call sends no insert,
  verifies the count and returns normally with nothing of the input committed.
\<close>

theorem load_data_batch_size_counterexample:
  "load_data accept_all [example_row 1] ''user_events'' ''default'' 0 [] =
     (Inl ZeroDivisionError, []) \<and>
   load_data accept_all [example_row 1] ''user_events'' ''default'' (- 1) [] =
     (Inr (), [(CountRows ''default'' ''user_events'', Some [[IntV 0]]),
               (EventStats ''default'' ''user_events'', Some [[IntV 0]])]) \<and>
   committed ''default'' ''user_events''
     [(CountRows ''default'' ''user_events'', Some [[IntV 0]]),
      (EventStats ''default'' ''user_events'', Some [[IntV 0]])] = []"
  by (simp add: load_data_def verify_data_count_def execute_def accept_all_def count_readable_def)

section \<open>Which store failures reach the caller\<close>

lemma reads_back_refused: "list_all reads_back (map fst v) \<Longrightarrow> list_all reads_back (refused v)"
proof (induction v)
  case Nil
  show ?case by simp
next
  case (Cons x v)
  obtain c r where x: "x = (c, r)" by (cases x)
  from Cons show ?case by (cases r) (simp_all add: x)
qed

lemma surfacedI:
  "tr' = tr @ new \<Longrightarrow> list_all reads_back (refused new) \<or> res = Inl StoreError \<Longrightarrow>
   surfaced res tr tr'"
  by (auto simp: surfaced_def)

lemma connect_surfaced: "connect srv tr = (res, tr') \<Longrightarrow> surfaced res tr tr'"
  by (cases "srv tr SelectVersion")
     (auto simp: connect_def execute_def surfaced_def split: list.splits)

lemma disconnect_surfaced: "disconnect srv tr = (res, tr') \<Longrightarrow> surfaced res tr tr'"
  by (cases "srv tr Disconnect") (auto simp: disconnect_def execute_def surfaced_def)

lemma create_database_surfaced:
  "create_database srv db tr = (res, tr') \<Longrightarrow> surfaced res tr tr'"
  by (cases "srv tr (CreateDatabase db)") (auto simp: create_database_def execute_def surfaced_def)

lemma load_data_batch_surfaced:
  "load_data_batch srv df tbl db tr = (res, tr') \<Longrightarrow> surfaced res tr tr'"
  by (cases "srv tr (InsertRows db tbl df)")
     (auto simp: load_data_batch_def execute_def surfaced_def split: if_splits)

lemma execute_query_surfaced:
  "execute_query srv q tr = (res, tr') \<Longrightarrow> surfaced res tr tr'"
  by (cases "srv tr (RawQuery q)") (auto simp: execute_query_def execute_def surfaced_def)

lemma verify_data_count_surfaced:
  "verify_data_count srv tbl db tr = (res, tr') \<Longrightarrow> surfaced res tr tr'"
proof -
  assume "verify_data_count srv tbl db tr = (res, tr')"
  from verify_data_count_trace[OF this] obtain v where "tr' = tr @ v" "list_all reads_back (map fst v)"
    by blast
  then show ?thesis using reads_back_refused[of v] by (auto intro: surfacedI)
qed

lemma create_table_surfaced:
  assumes "create_table srv tbl db tr = (res, tr')"
  shows "surfaced res tr tr'"
proof (cases "srv tr (CreateDatabase db)")
  case None
  with assms show ?thesis
    by (auto simp: create_table_def create_database_def execute_def surfaced_def)
next
  case (Some r)
  let ?t1 = "tr @ [(CreateDatabase db, Some r)]"
  show ?thesis
  proof (cases "srv ?t1 (CreateTable db tbl)")
    case None
    with Some assms show ?thesis
      by (auto simp: create_table_def create_database_def execute_def surfaced_def)
  next
    case (Some r2)
    with \<open>srv tr (CreateDatabase db) = Some r\<close> assms show ?thesis
      by (cases "srv (?t1 @ [(CreateTable db tbl, Some r2)]) (DescribeTable db tbl)")
         (auto simp: create_table_def create_database_def show_table_structure_def
                     execute_def surfaced_def)
  qed
qed

lemma load_data_surfaced:
  assumes "load_data srv df tbl db b tr = (res, tr')"
  shows "surfaced res tr tr'"
proof -
  consider "df = []" | "df \<noteq> []" "b = 0" | "df \<noteq> []" "b < 0" | "df \<noteq> []" "0 < b"
    by linarith
  then show ?thesis
  proof cases
    case 1
    with assms show ?thesis by (auto simp: load_data_def surfaced_def)
  next
    case 2
    with assms show ?thesis by (auto simp: load_data_def surfaced_def)
  next
    case 3
    with assms have "verify_data_count srv tbl db tr = (res, tr')" by (simp add: load_data_def)
    then show ?thesis by (rule verify_data_count_surfaced)
  next
    case 4
    then have b: "0 < nat b" by simp
    obtain r1 tr1 where ie: "insert_each srv tbl db (slices (nat b) df) tr = (r1, tr1)"
      by (cases "insert_each srv tbl db (slices (nat b) df) tr")
    from insert_each_trace[OF ie] obtain new where n: "tr1 = tr @ new"
      and d: "(r1 = Inr () \<and> refused new = []) \<or> r1 = Inl StoreError" by blast
    have ld: "load_data srv df tbl db b tr =
                (case (r1, tr1) of (Inl e, t) \<Rightarrow> (Inl e, t)
                 | (Inr _, t) \<Rightarrow> verify_data_count srv tbl db t)"
      using 4 ie by (simp add: load_data_def insert_slices_eq[OF b])
    from d show ?thesis
    proof
      assume ok: "r1 = Inr () \<and> refused new = []"
      then have "verify_data_count srv tbl db tr1 = (res, tr')" using ld assms by simp
      from verify_data_count_trace[OF this] obtain v where
        v: "tr' = tr1 @ v" "list_all reads_back (map fst v)" by blast
      have "tr' = tr @ (new @ v)" using v(1) n by simp
      moreover have "list_all reads_back (refused (new @ v))"
        using ok reads_back_refused[OF v(2)] by (simp add: refused_append)
      ultimately show ?thesis by (auto intro: surfacedI)
    next
      assume "r1 = Inl StoreError"
      then have "res = Inl StoreError" "tr' = tr @ new" using ld assms n by simp_all
      then show ?thesis by (auto intro: surfacedI)
    qed
  qed
qed

text \<open>
  Claim C8, amended. A store failure inside \<open>connect\<close>, \<open>disconnect\<close>,
  \<open>create_database\<close>, \<open>create_table\<close>, \<open>load_data\<close>, \<open>load_data_batch\<close> or
  \<open>execute_query\<close> is raised to the caller, unless the call the store refused was one of
  the read-back queries of \<open>show_table_structure\<close> or \<open>verify_data_count\<close>, run on
  their own or from inside \<open>create_table\<close> and \<open>load_data\<close>: those two operations
  catch what their queries raise, log it and return normally, always.
\<close>

theorem store_failures_surface:
  "(connect srv tr = (res, tr') \<longrightarrow> surfaced res tr tr') \<and>
   (disconnect srv tr = (res, tr') \<longrightarrow> surfaced res tr tr') \<and>
   (create_database srv db tr = (res, tr') \<longrightarrow> surfaced res tr tr') \<and>
   (create_table srv tbl db tr = (res, tr') \<longrightarrow> surfaced res tr tr') \<and>
   (load_data srv df tbl db b tr = (res, tr') \<longrightarrow> surfaced res tr tr') \<and>
   (load_data_batch srv df tbl db tr = (res, tr') \<longrightarrow> surfaced res tr tr') \<and>
   (execute_query srv q tr = (qres, tr') \<longrightarrow> surfaced qres tr tr') \<and>
   (verify_data_count srv tbl db tr = (res, tr') \<longrightarrow>
      res = Inr () \<and> (\<exists>v. tr' = tr @ v \<and> list_all reads_back (map fst v))) \<and>
   (show_table_structure srv tbl db tr = (res, tr') \<longrightarrow>
      res = Inr () \<and> (\<exists>v. tr' = tr @ v \<and> list_all reads_back (map fst v)))"
proof (intro conjI impI)
  assume "connect srv tr = (res, tr')"
  then show "surfaced res tr tr'" by (rule connect_surfaced)
next
  assume "disconnect srv tr = (res, tr')"
  then show "surfaced res tr tr'" by (rule disconnect_surfaced)
next
  assume "create_database srv db tr = (res, tr')"
  then show "surfaced res tr tr'" by (rule create_database_surfaced)
next
  assume "create_table srv tbl db tr = (res, tr')"
  then show "surfaced res tr tr'" by (rule create_table_surfaced)
next
  assume "load_data srv df tbl db b tr = (res, tr')"
  then show "surfaced res tr tr'" by (rule load_data_surfaced)
next
  assume "load_data_batch srv df tbl db tr = (res, tr')"
  then show "surfaced res tr tr'" by (rule load_data_batch_surfaced)
next
  assume "execute_query srv q tr = (qres, tr')"
  then show "surfaced qres tr tr'" by (rule execute_query_surfaced)
next
  assume a: "verify_data_count srv tbl db tr = (res, tr')"
  from verify_data_count_trace[OF a] show "res = Inr ()" by (rule conjunct1)
  from verify_data_count_trace[OF a] show "\<exists>v. tr' = tr @ v \<and> list_all reads_back (map fst v)"
    by (rule conjunct2)
next
  assume a: "show_table_structure srv tbl db tr = (res, tr')"
  from show_table_structure_trace[OF a] show "res = Inr ()" by (rule conjunct1)
  from show_table_structure_trace[OF a] show "\<exists>v. tr' = tr @ v \<and> list_all reads_back (map fst v)"
    by (rule conjunct2)
qed

text \<open>Against a store that refuses every call: \<open>connect\<close> and \<open>load_data_batch\<close> raise,
  \<open>verify_data_count\<close> returns.\<close>

theorem store_failures_surface_witness:
  "connect refuse_all [] = (Inl StoreError, [(SelectVersion, None)]) \<and>
   surfaced (Inl StoreError :: error + unit) [] [(SelectVersion, None)] \<and>
   refused [(SelectVersion, None)] = [SelectVersion] \<and>
   load_data_batch refuse_all [example_row 1] ''user_events'' ''default'' [] =
     (Inl StoreError, [(InsertRows ''default'' ''user_events'' [example_row 1], None)]) \<and>
   verify_data_count refuse_all ''user_events'' ''default'' [] =
     (Inr (), [(CountRows ''default'' ''user_events'', None)])"
proof -
  have c: "connect refuse_all [] = (Inl StoreError, [(SelectVersion, None)])"
    by (simp add: connect_def execute_def refuse_all_def)
  have l: "load_data_batch refuse_all [example_row 1] ''user_events'' ''default'' [] =
     (Inl StoreError, [(InsertRows ''default'' ''user_events'' [example_row 1], None)])"
    by (simp add: load_data_batch_def execute_def refuse_all_def)
  have v: "verify_data_count refuse_all ''user_events'' ''default'' [] =
     (Inr (), [(CountRows ''default'' ''user_events'', None)])"
    by (simp add: verify_data_count_def execute_def refuse_all_def)
  from store_failures_surface[of refuse_all "[]" "Inl StoreError" "[(SelectVersion, None)]"] c
  have s: "surfaced (Inl StoreError :: error + unit) [] [(SelectVersion, None)]" by blast
  have r: "refused [(SelectVersion, None)] = [SelectVersion]" by simp
  from c s r l v show ?thesis by (intro conjI)
qed

text \<open>The claim as written has every operation but verification raise what the store
  raises. \<open>show_table_structure\<close> does not, and \<open>create_table\<close> returns normally when
  the store refuses the query that describes the table it has just created.\<close>

theorem show_table_structure_swallows_counterexample:
  "show_table_structure refuse_all ''user_events'' ''default'' [] =
     (Inr (), [(DescribeTable ''default'' ''user_events'', None)]) \<and>
   create_table (\<lambda>tr c. if c = DescribeTable ''default'' ''user_events'' then None else Some [])
       ''user_events'' ''default'' [] =
     (Inr (), [(CreateDatabase ''default'', Some []),
               (CreateTable ''default'' ''user_events'', Some []),
               (DescribeTable ''default'' ''user_events'', None)])"
  by (simp add: show_table_structure_def create_table_def create_database_def execute_def
        refuse_all_def)

section \<open>The orchestrator\<close>

lemma feed_batches_console:
  "feed_batches srv tbl db g t tr out =
     (case feed_batches srv tbl db g t tr [] of (res, t', tr', ms) \<Rightarrow> (res, t', tr', out @ ms))"
proof (induction g arbitrary: t tr out)
  case Stop
  show ?case by simp
next
  case (Raise e)
  show ?case by simp
next
  case (Print m g)
  show ?case
    by (simp add: Print[of t tr "out @ [m]"] Print[of t tr "[m]"] split: prod.splits)
next
  case (Yield b g)
  show ?case
    by (cases "load_data_batch srv b tbl db tr")
       (auto simp: Yield[of _ _ out] split: sum.splits prod.splits)
qed


lemma feed_batches_done:
  "feed_batches srv tbl db g t tr out = (Inr (), t', tr', out') \<Longrightarrow>
     raised g = None \<and> t' = t + int (length (concat (yields g)))"
proof (induction g arbitrary: t tr out)
  case Stop
  then show ?case by simp
next
  case (Raise e)
  then show ?case by simp
next
  case (Print m g)
  then show ?case by simp
next
  case (Yield b g)
  obtain r1 tr1 where l: "load_data_batch srv b tbl db tr = (r1, tr1)"
    by (cases "load_data_batch srv b tbl db tr")
  with Yield.prems have "feed_batches srv tbl db g (t + int (length b)) tr1 out = (Inr (), t', tr', out')"
    by (cases r1) simp_all
  from Yield.IH[OF this] show ?case by simp
qed

lemma feed_batches_trace:
  "feed_batches srv tbl db g t tr out = (res, t', tr', out') \<Longrightarrow> \<exists>new. tr' = tr @ new"
proof (induction g arbitrary: t tr out)
  case Stop
  then show ?case by simp
next
  case (Raise e)
  then show ?case by simp
next
  case (Print m g)
  then show ?case by simp
next
  case (Yield b g)
  obtain r1 tr1 where l: "load_data_batch srv b tbl db tr = (r1, tr1)"
    by (cases "load_data_batch srv b tbl db tr")
  from load_data_batch_surfaced[OF l] obtain n1 where n1: "tr1 = tr @ n1"
    by (auto simp: surfaced_def)
  show ?case
  proof (cases r1)
    case (Inl e)
    with Yield.prems l n1 show ?thesis by auto
  next
    case (Inr u)
    with Yield.prems l have "feed_batches srv tbl db g (t + int (length b)) tr1 out = (res, t', tr', out')"
      by simp
    from Yield.IH[OF this] n1 show ?thesis by auto
  qed
qed

lemma feed_batches_accept_all:
  "\<exists>ms. feed_batches accept_all tbl db g t tr out =
     ((case raised g of None \<Rightarrow> Inr () | Some e \<Rightarrow> Inl e),
      t + int (length (concat (yields g))),
      tr @ map (\<lambda>b. (InsertRows db tbl b, Some [[IntV 0]])) (filter (\<lambda>b. b \<noteq> []) (yields g)),
      out @ ms)"
proof (induction g arbitrary: t tr out)
  case Stop
  show ?case by simp
next
  case (Raise e)
  show ?case by simp
next
  case (Print m g)
  from Print[of t tr "out @ [m]"] show ?case by auto
next
  case (Yield b g)
  show ?case
  proof (cases "b = []")
    case True
    with Yield[of t tr out] show ?thesis by (simp add: load_data_batch_def)
  next
    case False
    with Yield[of "t + int (length b)" "tr @ [(InsertRows db tbl b, Some [[IntV 0]])]" out]
    show ?thesis by (simp add: load_data_batch_def execute_def accept_all_def add.assoc)
  qed
qed

lemma connect_first:
  "connect srv [] = (res, tr0) \<Longrightarrow> tr0 = [(SelectVersion, srv [] SelectVersion)]"
  by (auto simp: connect_def execute_def split: option.splits list.splits)

lemma connect_refused: "srv tr SelectVersion = None \<Longrightarrow> connect srv tr = (Inl StoreError, tr @ [(SelectVersion, None)])"
  by (simp add: connect_def execute_def)

lemma main_connected:
  assumes "connect srv [] = (Inr (), tr0)" "try_block srv cfg a en tr0 = (res, t, tr, out)"
  shows "store (main srv cfg a en) = tr" "total_rows (main srv cfg a en) = t"
    "exit_status (main srv cfg a en) = (case res of Inl e \<Rightarrow> 1 | Inr u \<Rightarrow> 0)"
    "console (main srv cfg a en) = out @ (case res of Inl e \<Rightarrow> [ErrorReport e] | Inr u \<Rightarrow> [Elapsed, Rule])"
  using assms by (cases res; simp add: main_def)+

lemma main_not_connected:
  assumes "connect srv [] = (Inl e, tr0)"
  shows "main srv cfg a en =
           \<lparr>exit_status = 1, total_rows = None, store = tr0, console = [Rule, Title, Rule]\<rparr>"
  using assms by (simp add: main_def)

lemma surfaced_prefix: "surfaced res tr tr' \<Longrightarrow> \<exists>new. tr' = tr @ new"
  by (auto simp: surfaced_def)

lemma whole_dataset_trace:
  assumes "whole_dataset srv cfg a en tr out = (res, t, tr', out')"
  shows "\<exists>new. tr' = tr @ new"
proof -
  obtain printed g where g: "generate_dataframe cfg (Some (args_rows a)) en = (printed, g)"
    by (cases "generate_dataframe cfg (Some (args_rows a)) en")
  show ?thesis
  proof (cases "(\<exists>e. g = Inl e) \<or> args_generate_only a")
    case True
    with assms g have "tr' = tr" by (auto simp: whole_dataset_def split: sum.splits)
    then show ?thesis by simp
  next
    case False
    then obtain df where df: "g = Inr df" and lo: "\<not> args_generate_only a" by (cases g) auto
    obtain r1 tr1 where c: "create_table srv (args_table a) (args_database a) tr = (r1, tr1)"
      by (cases "create_table srv (args_table a) (args_database a) tr")
    from surfaced_prefix[OF create_table_surfaced[OF c]] obtain n1 where n1: "tr1 = tr @ n1" by blast
    show ?thesis
    proof (cases r1)
      case (Inl e)
      with assms g df lo c n1 show ?thesis by (auto simp: whole_dataset_def Let_def)
    next
      case (Inr u)
      obtain r2 tr2 where l: "load_data srv df (args_table a) (args_database a) (args_batch_size a) tr1 = (r2, tr2)"
        by (cases "load_data srv df (args_table a) (args_database a) (args_batch_size a) tr1")
      from surfaced_prefix[OF load_data_surfaced[OF l]] obtain n2 where n2: "tr2 = tr1 @ n2" by blast
      show ?thesis
      proof (cases r2)
        case (Inl e)
        with assms g df lo c \<open>r1 = Inr u\<close> l n1 n2 show ?thesis
          by (auto simp: whole_dataset_def Let_def)
      next
        case (Inr u2)
        obtain r3 tr3 where d: "disconnect srv tr2 = (r3, tr3)" by (cases "disconnect srv tr2")
        from surfaced_prefix[OF disconnect_surfaced[OF d]] obtain n3 where n3: "tr3 = tr2 @ n3" by blast
        from assms g df lo c \<open>r1 = Inr u\<close> l Inr d have "tr' = tr3"
          by (cases r3) (auto simp: whole_dataset_def Let_def)
        with n1 n2 n3 show ?thesis by simp
      qed
    qed
  qed
qed

lemma stream_batches_trace:
  assumes "stream_batches srv cfg a en tr out = (res, t, tr', out')"
  shows "\<exists>new. tr' = tr @ new"
proof -
  obtain r1 t1 tr1 o1 where f: "feed_batches srv (args_table a) (args_database a)
             (generate_data_batches cfg (Some (args_batch_size a)) en) 0 tr
             (out @ [StreamingBatches]) = (r1, t1, tr1, o1)"
    by (cases "feed_batches srv (args_table a) (args_database a)
             (generate_data_batches cfg (Some (args_batch_size a)) en) 0 tr
             (out @ [StreamingBatches])") auto
  from feed_batches_trace[OF f] obtain n1 where n1: "tr1 = tr @ n1" by blast
  show ?thesis
  proof (cases r1)
    case (Inl e)
    with assms f n1 show ?thesis by (auto simp: stream_batches_def)
  next
    case (Inr u)
    obtain r2 tr2 where v: "verify_data_count srv (args_table a) (args_database a) tr1 = (r2, tr2)"
      by (cases "verify_data_count srv (args_table a) (args_database a) tr1")
    from verify_data_count_trace[OF v] obtain n2 where n2: "r2 = Inr ()" "tr2 = tr1 @ n2" by blast
    obtain r3 tr3 where d: "disconnect srv tr2 = (r3, tr3)" by (cases "disconnect srv tr2")
    from surfaced_prefix[OF disconnect_surfaced[OF d]] obtain n3 where n3: "tr3 = tr2 @ n3" by blast
    from assms f Inr v n2(1) d have "tr' = tr3"
      by (cases r3) (auto simp: stream_batches_def)
    with n1 n2 n3 show ?thesis by simp
  qed
qed

lemma streamed_trace:
  assumes "streamed srv cfg a en tr out = (res, t, tr', out')"
  shows "\<exists>new. tr' = tr @ new"
proof (cases "args_generate_only a")
  case True
  with assms have "stream_batches srv cfg a en tr out = (res, t, tr', out')"
    by (simp add: streamed_def)
  then show ?thesis by (rule stream_batches_trace)
next
  case False
  obtain r1 tr1 where c: "connect srv tr = (r1, tr1)" by (cases "connect srv tr")
  from surfaced_prefix[OF connect_surfaced[OF c]] obtain n1 where n1: "tr1 = tr @ n1" by blast
  show ?thesis
  proof (cases r1)
    case (Inl e)
    with assms False c n1 show ?thesis by (auto simp: streamed_def)
  next
    case (Inr u)
    obtain r2 tr2 where ct: "create_table srv (args_table a) (args_database a) tr1 = (r2, tr2)"
      by (cases "create_table srv (args_table a) (args_database a) tr1")
    from surfaced_prefix[OF create_table_surfaced[OF ct]] obtain n2 where n2: "tr2 = tr1 @ n2" by blast
    show ?thesis
    proof (cases r2)
      case (Inl e)
      with assms False c \<open>r1 = Inr u\<close> ct n1 n2 show ?thesis by (auto simp: streamed_def Let_def)
    next
      case (Inr u2)
      with assms False c \<open>r1 = Inr u\<close> ct
      have "stream_batches srv cfg a en tr2
              (out @ [ConnectingToStore, CreatingTable (args_database a) (args_table a)]) =
            (res, t, tr', out')"
        by (simp add: streamed_def Let_def)
      from stream_batches_trace[OF this] n1 n2 show ?thesis by auto
    qed
  qed
qed

lemma try_block_trace: "try_block srv cfg a en tr = (res, t, tr', out') \<Longrightarrow> \<exists>new. tr' = tr @ new"
  by (auto simp: try_block_def split: if_splits dest: whole_dataset_trace streamed_trace)

text \<open>
  Claim C10. In every run, with or without \<open>--generate-only\<close>, the first call the store
  sees is the version query of the loader's constructor. When the store refuses it, the
  run ends there with exit status 1: nothing but the banner has been printed, so no
  generation has begun, and no other call is made.
\<close>

theorem loader_built_first:
  "(\<exists>rest. store (main srv cfg a en) = (SelectVersion, srv [] SelectVersion) # rest) \<and>
   (srv [] SelectVersion = None \<longrightarrow>
      main srv cfg a en =
        \<lparr>exit_status = 1, total_rows = None, store = [(SelectVersion, None)],
         console = [Rule, Title, Rule]\<rparr>)"
proof
  obtain r tr0 where c: "connect srv [] = (r, tr0)" by (cases "connect srv []")
  note f = connect_first[OF c]
  show "\<exists>rest. store (main srv cfg a en) = (SelectVersion, srv [] SelectVersion) # rest"
  proof (cases r)
    case (Inl e)
    with c f show ?thesis by (simp add: main_not_connected)
  next
    case (Inr u)
    obtain res t tr out where b: "try_block srv cfg a en tr0 = (res, t, tr, out)"
      by (cases "try_block srv cfg a en tr0") auto
    from try_block_trace[OF b] obtain new where "tr = tr0 @ new" by blast
    moreover have "store (main srv cfg a en) = tr" using main_connected(1)[OF _ b] c Inr by simp
    ultimately show ?thesis using f by simp
  qed
next
  show "srv [] SelectVersion = None \<longrightarrow>
      main srv cfg a en =
        \<lparr>exit_status = 1, total_rows = None, store = [(SelectVersion, None)],
         console = [Rule, Title, Rule]\<rparr>"
  proof
    assume "srv [] SelectVersion = None"
    then have "connect srv [] = (Inl StoreError, [] @ [(SelectVersion, None)])"
      by (rule connect_refused[of srv "[]"])
    then show "main srv cfg a en =
        \<lparr>exit_status = 1, total_rows = None, store = [(SelectVersion, None)],
         console = [Rule, Title, Rule]\<rparr>"
      by (simp add: main_not_connected)
  qed
qed

text \<open>A generate-only run against a store that refuses every call.\<close>

theorem loader_built_first_witness:
  "refuse_all [] SelectVersion = None \<and>
   args_generate_only (generate_only_args 1000) \<and>
   main refuse_all example_config (generate_only_args 1000) example_entropy =
     \<lparr>exit_status = 1, total_rows = None, store = [(SelectVersion, None)],
      console = [Rule, Title, Rule]\<rparr>"
proof -
  have h: "refuse_all [] SelectVersion = None" by (simp add: refuse_all_def)
  have g: "args_generate_only (generate_only_args 1000)" by (simp add: generate_only_args_def)
  from loader_built_first[of refuse_all example_config "generate_only_args 1000" example_entropy] h
  have "main refuse_all example_config (generate_only_args 1000) example_entropy =
     \<lparr>exit_status = 1, total_rows = None, store = [(SelectVersion, None)],
      console = [Rule, Title, Rule]\<rparr>" by blast
  with h g show ?thesis by (intro conjI)
qed

section \<open>Which mode a run takes\<close>



lemma whole_dataset_generate_only:
  "args_generate_only a \<Longrightarrow> whole_dataset srv cfg a en tr out = (res, t, tr', out') \<Longrightarrow> tr' = tr"
  by (auto simp: whole_dataset_def split: sum.splits prod.splits)







lemma connect_accept_all: "connect accept_all [] = (Inr (), [(SelectVersion, Some [[IntV 0]])])"
  by (simp add: connect_def execute_def accept_all_def)




section \<open>Streamed runs\<close>

lemma batches_from_sizes_raised:
  "raised (batches_from cfg ids profs b n nb k j en) = None \<Longrightarrow>
     map length (yields (batches_from cfg ids profs b n nb k j en)) =
       map (\<lambda>i. nat (min b (n - (j + int i) * b))) [0..<k]"
proof (induction k arbitrary: j en)
  case 0
  show ?case by simp
next
  case (Suc k)
  show ?case
  proof (cases "gen_rows cfg ids profs (nat (min b (n - j * b))) en")
    case (Inl e)
    with Suc.prems show ?thesis by simp
  next
    case (Inr x)
    obtain rs en1 where x: "x = (rs, en1)" by (cases x)
    have g: "gen_rows cfg ids profs (nat (min b (n - j * b))) en = Inr (rs, en1)"
      using Inr x by simp
    have l: "length rs = nat (min b (n - j * b))" using gen_rows_sound[OF g] by simp
    from Suc.prems g have "raised (batches_from cfg ids profs b n nb k (j + 1) en1) = None" by simp
    note ih = Suc.IH[OF this]
    have "map (\<lambda>i. nat (min b (n - (j + int i) * b))) [0..<Suc k] =
        nat (min b (n - j * b)) # map (\<lambda>i. nat (min b (n - (j + 1 + int i) * b))) [0..<k]"
      by (simp add: upt_conv_Cons map_Suc_upt[symmetric] algebra_simps del: upt_Suc)
    then show ?thesis using g l ih by (simp del: upt_Suc)
  qed
qed

lemma generate_data_batches_sizes_raised:
  assumes "raised (generate_data_batches cfg (Some b) en) = None"
  shows "b \<noteq> 0 \<and>
         map length (yields (generate_data_batches cfg (Some b) en)) =
           map (\<lambda>i. nat (min b (num_rows cfg - int i * b))) [0..<nat ((num_rows cfg + b - 1) div b)]"
proof -
  from assms have b: "b \<noteq> 0" by (auto simp: generate_data_batches_def)
  with assms obtain ids profs en1 where
    p: "population cfg (unique_devices (num_rows cfg)) en = Inr (ids, profs, en1)"
    by (auto simp: generate_data_batches_def Let_def split: sum.splits)
  from assms b p have "raised (batches_from cfg ids profs b (num_rows cfg)
      ((num_rows cfg + b - 1) div b) (nat ((num_rows cfg + b - 1) div b)) 0 en1) = None"
    by (simp add: generate_data_batches_def Let_def)
  from batches_from_sizes_raised[OF this] b p show ?thesis
    by (simp add: generate_data_batches_def Let_def)
qed

lemma generate_data_batches_total:
  assumes "1 \<le> b" "0 \<le> num_rows cfg" "raised (generate_data_batches cfg (Some b) en) = None"
  shows "int (length (concat (yields (generate_data_batches cfg (Some b) en)))) = num_rows cfg"
proof -
  let ?n = "num_rows cfg"
  let ?bs = "yields (generate_data_batches cfg (Some b) en)"
  from generate_data_batches_sizes_raised[OF assms(3)]
  have m: "map length ?bs = map (\<lambda>i. nat (min b (?n - int i * b))) [0..<nat ((?n + b - 1) div b)]"
    by simp
  have lc: "length (concat ?bs) = sum_list (map length ?bs)" by (simp add: length_concat)
  show ?thesis
  proof (cases "?n = 0")
    case True
    have "(b - 1) div b = 0" using assms(1) by simp
    then have "map length ?bs = []" using m True by simp
    then show ?thesis using lc True by simp
  next
    case False
    then have "1 \<le> ?n" using assms(2) by simp
    from chunk_sizes(5)[OF this assms(1)] m lc show ?thesis by simp
  qed
qed

lemma stream_batches_done:
  assumes "stream_batches srv cfg a en tr out = (Inr (), t, tr', out')"
  shows "raised (generate_data_batches cfg (Some (args_batch_size a)) en) = None \<and>
         t = Some (int (length (concat (yields (generate_data_batches cfg (Some (args_batch_size a)) en)))))"
proof -
  let ?g = "generate_data_batches cfg (Some (args_batch_size a)) en"
  obtain r1 t1 tr1 o1 where f: "feed_batches srv (args_table a) (args_database a) ?g 0 tr
             (out @ [StreamingBatches]) = (r1, t1, tr1, o1)"
    by (cases "feed_batches srv (args_table a) (args_database a) ?g 0 tr (out @ [StreamingBatches])") auto
  from assms f have "r1 = Inr ()" "t = Some t1"
    by (auto simp: stream_batches_def split: sum.splits prod.splits)
  with feed_batches_done[of srv "args_table a" "args_database a" ?g 0 tr "out @ [StreamingBatches]" t1 tr1 o1] f
  show ?thesis by simp
qed

lemma streamed_done:
  assumes "streamed srv cfg a en tr out = (Inr (), t, tr', out')"
  shows "raised (generate_data_batches cfg (Some (args_batch_size a)) en) = None \<and>
         t = Some (int (length (concat (yields (generate_data_batches cfg (Some (args_batch_size a)) en)))))"
proof -
  from assms have "\<exists>tr1 out1. stream_batches srv cfg a en tr1 out1 = (Inr (), t, tr', out')"
    by (auto simp: streamed_def Let_def split: if_splits sum.splits prod.splits)
  then show ?thesis using stream_batches_done by blast
qed

lemma stream_batches_out:
  "stream_batches srv cfg a en tr out =
     (case stream_batches srv cfg a en tr [] of (res, t, tr', ms) \<Rightarrow> (res, t, tr', out @ ms))"
proof -
  let ?g = "generate_data_batches cfg (Some (args_batch_size a)) en"
  obtain r1 t1 tr1 ms where f: "feed_batches srv (args_table a) (args_database a) ?g 0 tr [] = (r1, t1, tr1, ms)"
    by (cases "feed_batches srv (args_table a) (args_database a) ?g 0 tr []") auto
  have f1: "feed_batches srv (args_table a) (args_database a) ?g 0 tr (out @ [StreamingBatches]) =
              (r1, t1, tr1, (out @ [StreamingBatches]) @ ms)"
    using f by (simp add: feed_batches_console[of _ _ _ _ _ _ "out @ [StreamingBatches]"])
  have f2: "feed_batches srv (args_table a) (args_database a) ?g 0 tr ([] @ [StreamingBatches]) =
              (r1, t1, tr1, ([] @ [StreamingBatches]) @ ms)"
    using f by (simp add: feed_batches_console[of _ _ _ _ _ _ "[StreamingBatches]"])
  show ?thesis
    unfolding stream_batches_def f1 f2
    by (cases r1) (auto split: sum.splits prod.splits)
qed

lemma streamed_out:
  "streamed srv cfg a en tr out =
     (case streamed srv cfg a en tr [] of (res, t, tr', ms) \<Rightarrow> (res, t, tr', out @ ms))"
proof (cases "args_generate_only a")
  case True
  then show ?thesis using stream_batches_out[of srv cfg a en tr out] by (simp add: streamed_def)
next
  case False
  let ?l = "[ConnectingToStore, CreatingTable (args_database a) (args_table a)]"
  have s: "\<And>tr2. stream_batches srv cfg a en tr2 (out @ ?l) =
      (case stream_batches srv cfg a en tr2 ?l of (res, t, tr', ms) \<Rightarrow> (res, t, tr', out @ ms))"
  proof -
    fix tr2
    obtain res t tr' ms where e: "stream_batches srv cfg a en tr2 [] = (res, t, tr', ms)"
      by (cases "stream_batches srv cfg a en tr2 []") auto
    have e1: "stream_batches srv cfg a en tr2 (out @ ?l) = (res, t, tr', (out @ ?l) @ ms)"
      using stream_batches_out[of srv cfg a en tr2 "out @ ?l"] e by simp
    have e2: "stream_batches srv cfg a en tr2 ?l = (res, t, tr', ?l @ ms)"
      using stream_batches_out[of srv cfg a en tr2 ?l] e by simp
    show "stream_batches srv cfg a en tr2 (out @ ?l) =
      (case stream_batches srv cfg a en tr2 ?l of (res, t, tr', ms) \<Rightarrow> (res, t, tr', out @ ms))"
      unfolding e1 e2 by simp
  qed
  show ?thesis using False
    by (auto simp: streamed_def Let_def s split: sum.splits prod.splits)
qed

lemma stream_batches_args_rows:
  "stream_batches srv cfg (a\<lparr>args_rows := r\<rparr>) en tr out = stream_batches srv cfg a en tr out"
  by (simp add: stream_batches_def cong: prod.case_cong sum.case_cong)

lemma streamed_args_rows:
  "streamed srv cfg (a\<lparr>args_rows := r\<rparr>) en tr out = streamed srv cfg a en tr out"
  by (simp add: streamed_def stream_batches_args_rows Let_def cong: prod.case_cong sum.case_cong)

lemma main_streamed_rows:
  assumes "1000000 < args_rows a" "1000000 < r"
  shows "store (main srv cfg (a\<lparr>args_rows := r\<rparr>) en) = store (main srv cfg a en) \<and>
         total_rows (main srv cfg (a\<lparr>args_rows := r\<rparr>) en) = total_rows (main srv cfg a en) \<and>
         exit_status (main srv cfg (a\<lparr>args_rows := r\<rparr>) en) = exit_status (main srv cfg a en)"
proof -
  obtain r0 tr0 where c: "connect srv [] = (r0, tr0)" by (cases "connect srv []")
  show ?thesis
  proof (cases r0)
    case (Inl e)
    with c show ?thesis by (simp add: main_not_connected)
  next
    case (Inr u)
    then have c': "connect srv [] = (Inr (), tr0)" using c by simp
    obtain res t tr ms where s: "streamed srv cfg a en tr0 [] = (res, t, tr, ms)"
      by (cases "streamed srv cfg a en tr0 []") auto
    have b1: "try_block srv cfg a en tr0 =
                (res, t, tr, [Rule, Title, Rule, GeneratingRows (args_rows a)] @ ms)"
      using assms(1) s by (simp add: try_block_def streamed_out[of _ _ _ _ _ "[Rule, Title, Rule, GeneratingRows (args_rows a)]"])
    have b2: "try_block srv cfg (a\<lparr>args_rows := r\<rparr>) en tr0 =
                (res, t, tr, [Rule, Title, Rule, GeneratingRows r] @ ms)"
      using assms(2) s
      by (simp add: try_block_def streamed_args_rows streamed_out[of _ _ _ _ _ "[Rule, Title, Rule, GeneratingRows r]"])
    from main_connected(1,2,3)[OF c' b1] main_connected(1,2,3)[OF c' b2] show ?thesis by simp
  qed
qed

lemma main_streamed_total:
  assumes "1000000 < args_rows a" "exit_status (main srv cfg a en) = 0"
  shows "raised (generate_data_batches cfg (Some (args_batch_size a)) en) = None \<and>
         total_rows (main srv cfg a en) =
           Some (int (length (concat (yields (generate_data_batches cfg (Some (args_batch_size a)) en)))))"
proof -
  obtain r0 tr0 where c: "connect srv [] = (r0, tr0)" by (cases "connect srv []")
  show ?thesis
  proof (cases r0)
    case (Inl e)
    with c assms(2) show ?thesis by (simp add: main_not_connected)
  next
    case (Inr u)
    then have c': "connect srv [] = (Inr (), tr0)" using c by simp
    let ?out = "[Rule, Title, Rule, GeneratingRows (args_rows a)]"
    obtain res t tr out where s: "streamed srv cfg a en tr0 ?out = (res, t, tr, out)"
      by (cases "streamed srv cfg a en tr0 ?out") auto
    then have b: "try_block srv cfg a en tr0 = (res, t, tr, out)"
      using assms(1) by (simp add: try_block_def)
    note m = main_connected[OF c' b]
    from m(3) assms(2) have "res = Inr ()" by (cases res) simp_all
    with s streamed_done[of srv cfg a en tr0 ?out t tr out] m(2) show ?thesis by simp
  qed
qed

lemma example_batches:
  "raised (generate_data_batches example_config (Some 4) example_entropy) = None \<and>
   map length (yields (generate_data_batches example_config (Some 4) example_entropy)) = [4, 4, 2]"
proof -
  have b: "(4::int) \<noteq> 0" by simp
  have u: "[0..<3] = [0, 1, 2]" by (simp add: upt_rec)
  from generate_data_batches_sizes[OF wf_example_config b, of example_entropy]
  show ?thesis by (simp add: example_config_def u)
qed

lemma inserts_map:
  "inserts db tbl (map (\<lambda>b. (InsertRows db tbl b, r)) bs) = bs"
  by (induction bs) simp_all

lemma writes_map:
  "filter writes (map fst (map (\<lambda>b. (InsertRows db tbl b, r)) bs)) = map (InsertRows db tbl) bs"
  by (induction bs) simp_all

lemma stream_batches_accept_all:
  assumes "raised (generate_data_batches cfg (Some (args_batch_size a)) en) = None"
  shows "\<exists>ms. stream_batches accept_all cfg a en tr out =
     (Inr (),
      Some (int (length (concat (yields (generate_data_batches cfg (Some (args_batch_size a)) en))))),
      tr @ map (\<lambda>b. (InsertRows (args_database a) (args_table a) b, Some [[IntV 0]]))
             (filter (\<lambda>b. b \<noteq> []) (yields (generate_data_batches cfg (Some (args_batch_size a)) en))) @
        [(CountRows (args_database a) (args_table a), Some [[IntV 0]]),
         (EventStats (args_database a) (args_table a), Some [[IntV 0]]),
         (Disconnect, Some [[IntV 0]])],
      ms)"
proof -
  let ?g = "generate_data_batches cfg (Some (args_batch_size a)) en"
  from feed_batches_accept_all[of "args_table a" "args_database a" ?g 0 tr "out @ [StreamingBatches]"]
  obtain ms where f: "feed_batches accept_all (args_table a) (args_database a) ?g 0 tr
      (out @ [StreamingBatches]) =
     (Inr (), int (length (concat (yields ?g))),
      tr @ map (\<lambda>b. (InsertRows (args_database a) (args_table a) b, Some [[IntV 0]]))
             (filter (\<lambda>b. b \<noteq> []) (yields ?g)),
      (out @ [StreamingBatches]) @ ms)"
    using assms by auto
  show ?thesis
    unfolding stream_batches_def f
    by (simp add: verify_data_count_def disconnect_def execute_def accept_all_def count_readable_def)
qed

lemma main_generate_only_streamed_accept_all:
  assumes "raised (generate_data_batches cfg (Some (args_batch_size a)) en) = None"
    and "args_generate_only a" "1000000 < args_rows a"
  shows "exit_status (main accept_all cfg a en) = 0 \<and>
     total_rows (main accept_all cfg a en) =
       Some (int (length (concat (yields (generate_data_batches cfg (Some (args_batch_size a)) en))))) \<and>
     store (main accept_all cfg a en) =
       [(SelectVersion, Some [[IntV 0]])] @
       map (\<lambda>b. (InsertRows (args_database a) (args_table a) b, Some [[IntV 0]]))
             (filter (\<lambda>b. b \<noteq> []) (yields (generate_data_batches cfg (Some (args_batch_size a)) en))) @
        [(CountRows (args_database a) (args_table a), Some [[IntV 0]]),
         (EventStats (args_database a) (args_table a), Some [[IntV 0]]),
         (Disconnect, Some [[IntV 0]])]"
proof -
  let ?out = "[Rule, Title, Rule, GeneratingRows (args_rows a)]"
  let ?tr0 = "[(SelectVersion, Some [[IntV 0]])]"
  from stream_batches_accept_all[OF assms(1), of ?tr0 ?out] obtain ms where
    s: "stream_batches accept_all cfg a en ?tr0 ?out =
     (Inr (),
      Some (int (length (concat (yields (generate_data_batches cfg (Some (args_batch_size a)) en))))),
      ?tr0 @ map (\<lambda>b. (InsertRows (args_database a) (args_table a) b, Some [[IntV 0]]))
             (filter (\<lambda>b. b \<noteq> []) (yields (generate_data_batches cfg (Some (args_batch_size a)) en))) @
        [(CountRows (args_database a) (args_table a), Some [[IntV 0]]),
         (EventStats (args_database a) (args_table a), Some [[IntV 0]]),
         (Disconnect, Some [[IntV 0]])],
      ms)" by blast
  then have b: "try_block accept_all cfg a en ?tr0 =
     (Inr (),
      Some (int (length (concat (yields (generate_data_batches cfg (Some (args_batch_size a)) en))))),
      ?tr0 @ map (\<lambda>b. (InsertRows (args_database a) (args_table a) b, Some [[IntV 0]]))
             (filter (\<lambda>b. b \<noteq> []) (yields (generate_data_batches cfg (Some (args_batch_size a)) en))) @
        [(CountRows (args_database a) (args_table a), Some [[IntV 0]]),
         (EventStats (args_database a) (args_table a), Some [[IntV 0]]),
         (Disconnect, Some [[IntV 0]])],
      ms)"
    using assms(2,3) by (simp add: try_block_def streamed_def)
  from main_connected(1,2,3)[OF connect_accept_all b] show ?thesis by simp
qed

lemma main_generate_only_whole_dataset:
  assumes "args_generate_only a" "args_rows a \<le> 1000000"
  shows "store (main srv cfg a en) = [(SelectVersion, srv [] SelectVersion)]"
proof -
  obtain r0 tr0 where c: "connect srv [] = (r0, tr0)" by (cases "connect srv []")
  note f = connect_first[OF c]
  show ?thesis
  proof (cases r0)
    case (Inl e)
    with c f show ?thesis by (simp add: main_not_connected)
  next
    case (Inr u)
    then have c': "connect srv [] = (Inr (), tr0)" using c by simp
    let ?out = "[Rule, Title, Rule, GeneratingRows (args_rows a)]"
    obtain res t tr out where w: "whole_dataset srv cfg a en tr0 ?out = (res, t, tr, out)"
      by (cases "whole_dataset srv cfg a en tr0 ?out") auto
    then have b: "try_block srv cfg a en tr0 = (res, t, tr, out)"
      using assms(2) by (simp add: try_block_def)
    from main_connected(1)[OF c' b] whole_dataset_generate_only[OF assms(1) w] f
    show ?thesis by simp
  qed
qed

lemma generate_data_batches_total_max:
  assumes "1 \<le> b" "raised (generate_data_batches cfg (Some b) en) = None"
  shows "int (length (concat (yields (generate_data_batches cfg (Some b) en)))) = max 0 (num_rows cfg)"
proof (cases "0 \<le> num_rows cfg")
  case True
  from generate_data_batches_total[OF assms(1) True assms(2)] True show ?thesis by simp
next
  case False
  let ?n = "num_rows cfg"
  let ?bs = "yields (generate_data_batches cfg (Some b) en)"
  from generate_data_batches_sizes_raised[OF assms(2)]
  have m: "map length ?bs = map (\<lambda>i. nat (min b (?n - int i * b))) [0..<nat ((?n + b - 1) div b)]"
    by simp
  have "?n + b - 1 < b" using False by simp
  then have "?n + b - 1 \<le> b - 1" by simp
  then have "(?n + b - 1) div b \<le> (b - 1) div b" using assms(1) by (intro zdiv_mono1) simp_all
  moreover have "(b - 1) div b = 0" using assms(1) by simp
  ultimately have "nat ((?n + b - 1) div b) = 0" by simp
  then have "map length ?bs = []" using m by simp
  then show ?thesis using False by simp
qed

lemma feed_batches_refuse_inserts:
  "yields g = b # bs \<Longrightarrow> b \<noteq> [] \<Longrightarrow>
     \<exists>tr' out'. feed_batches refuse_inserts tbl db g t tr out =
        (Inl StoreError, t + int (length b), tr', out')"
proof (induction g arbitrary: out)
  case Stop
  then show ?case by simp
next
  case (Raise e)
  then show ?case by simp
next
  case (Print m g)
  then show ?case by simp
next
  case (Yield x g)
  then show ?case by (simp add: load_data_batch_def execute_def refuse_inserts_def)
qed

lemma connect_refuse_inserts:
  "connect refuse_inserts [] = (Inr (), [(SelectVersion, Some [[IntV 0]])])"
  by (simp add: connect_def execute_def refuse_inserts_def)

text \<open>
  Claim C9, amended. A run above the threshold with a batch size of at least 1 that ends
  without an error has generated the configured \<open>num_rows\<close> records (none when the
  configured count is negative), whatever count was requested: the batch generator is
  given the batch size only. A generator that runs to its end has yielded that many
  records, \<open>total_rows\<close> holds that number when the run ends with exit status 0, and the
  calls made to the store, \<open>total_rows\<close> and the exit status are the same for any two
  requested counts above the threshold.
\<close>

theorem streamed_total_is_configured:
  assumes "1000000 < args_rows a" "1 \<le> args_batch_size a"
  shows "(raised (generate_data_batches cfg (Some (args_batch_size a)) en) = None \<longrightarrow>
            int (length (concat (yields (generate_data_batches cfg (Some (args_batch_size a)) en)))) =
              max 0 (num_rows cfg)) \<and>
         (exit_status (main srv cfg a en) = 0 \<longrightarrow>
            total_rows (main srv cfg a en) = Some (max 0 (num_rows cfg))) \<and>
         (1000000 < r \<longrightarrow>
            store (main srv cfg (a\<lparr>args_rows := r\<rparr>) en) = store (main srv cfg a en) \<and>
            total_rows (main srv cfg (a\<lparr>args_rows := r\<rparr>) en) = total_rows (main srv cfg a en) \<and>
            exit_status (main srv cfg (a\<lparr>args_rows := r\<rparr>) en) = exit_status (main srv cfg a en))"
proof (intro conjI impI)
  assume "raised (generate_data_batches cfg (Some (args_batch_size a)) en) = None"
  from generate_data_batches_total_max[OF assms(2) this]
  show "int (length (concat (yields (generate_data_batches cfg (Some (args_batch_size a)) en)))) =
              max 0 (num_rows cfg)" .
next
  assume "exit_status (main srv cfg a en) = 0"
  from main_streamed_total[OF assms(1) this]
  have r: "raised (generate_data_batches cfg (Some (args_batch_size a)) en) = None"
    and t: "total_rows (main srv cfg a en) =
      Some (int (length (concat (yields (generate_data_batches cfg (Some (args_batch_size a)) en)))))"
    by simp_all
  from generate_data_batches_total_max[OF assms(2) r] t
  show "total_rows (main srv cfg a en) = Some (max 0 (num_rows cfg))" by simp
next
  assume r: "1000000 < r"
  from main_streamed_rows[OF assms(1) r, of srv cfg en]
  show "store (main srv cfg (a\<lparr>args_rows := r\<rparr>) en) = store (main srv cfg a en)"
    and "total_rows (main srv cfg (a\<lparr>args_rows := r\<rparr>) en) = total_rows (main srv cfg a en)"
    and "exit_status (main srv cfg (a\<lparr>args_rows := r\<rparr>) en) = exit_status (main srv cfg a en)"
    by simp_all
qed

text \<open>Two million rows requested of the example configuration, which sets ten.\<close>

theorem streamed_total_is_configured_witness:
  "1000000 < args_rows (generate_only_args 2000000) \<and>
   1 \<le> args_batch_size (generate_only_args 2000000) \<and>
   exit_status (main accept_all example_config (generate_only_args 2000000) example_entropy) = 0 \<and>
   total_rows (main accept_all example_config (generate_only_args 2000000) example_entropy) = Some 10"
proof -
  let ?a = "generate_only_args 2000000"
  have h: "1000000 < args_rows ?a" "1 \<le> args_batch_size ?a"
    by (simp_all add: generate_only_args_def)
  have bs: "args_batch_size ?a = 4" and go: "args_generate_only ?a"
    by (simp_all add: generate_only_args_def)
  have r: "raised (generate_data_batches example_config (Some (args_batch_size ?a)) example_entropy) = None"
    using example_batches by (simp add: bs)
  from main_generate_only_streamed_accept_all[OF r go h(1)]
  have e: "exit_status (main accept_all example_config ?a example_entropy) = 0" by simp
  from streamed_total_is_configured[OF h, where cfg = example_config and en = example_entropy
      and srv = accept_all] e
  have "total_rows (main accept_all example_config ?a example_entropy) =
          Some (max 0 (num_rows example_config))"
    by blast
  then have "total_rows (main accept_all example_config ?a example_entropy) = Some 10"
    by (simp add: example_config_def)
  with h e show ?thesis by (intro conjI)
qed

text \<open>
  The claim as written has a streamed run always generate \<open>num_rows\<close> records. With
  \<open>--batch-size -1\<close> the batch count is negative, the generator yields nothing and the
  run ends with exit status 0 having generated no record of the ten configured. With a
  store that refuses inserts the run ends at the first batch: four records were
  generated, the generator is never asked for more. And with a negative configured count
  no record is generated.
\<close>

theorem streamed_total_counterexample:
  "num_rows example_config = 10 \<and>
   exit_status (main accept_all example_config
      ((generate_only_args 2000000)\<lparr>args_batch_size := - 1\<rparr>) example_entropy) = 0 \<and>
   total_rows (main accept_all example_config
      ((generate_only_args 2000000)\<lparr>args_batch_size := - 1\<rparr>) example_entropy) = Some 0 \<and>
   exit_status (main refuse_inserts example_config (generate_only_args 2000000) example_entropy) = 1 \<and>
   total_rows (main refuse_inserts example_config (generate_only_args 2000000) example_entropy) = Some 4 \<and>
   exit_status (main accept_all (example_config\<lparr>num_rows := - 5\<rparr>)
      (generate_only_args 2000000) example_entropy) = 0 \<and>
   total_rows (main accept_all (example_config\<lparr>num_rows := - 5\<rparr>)
      (generate_only_args 2000000) example_entropy) = Some 0"
proof -
  have n: "num_rows example_config = 10" by (simp add: example_config_def)
  \<comment> \<open>a negative batch size\<close>
  let ?a = "(generate_only_args 2000000)\<lparr>args_batch_size := - 1\<rparr>"
  have a: "args_batch_size ?a = - 1" "args_generate_only ?a" "1000000 < args_rows ?a"
    by (simp_all add: generate_only_args_def)
  have b: "(- 1 :: int) \<noteq> 0" by simp
  from generate_data_batches_sizes[OF wf_example_config b, of example_entropy]
  have r1: "raised (generate_data_batches example_config (Some (- 1)) example_entropy) = None"
    and y1: "yields (generate_data_batches example_config (Some (- 1)) example_entropy) = []"
    by (simp_all add: example_config_def)
  from main_generate_only_streamed_accept_all[of example_config ?a example_entropy] r1 y1 a
  have c1: "exit_status (main accept_all example_config ?a example_entropy) = 0"
    "total_rows (main accept_all example_config ?a example_entropy) = Some 0"
    by simp_all
  \<comment> \<open>a store that refuses inserts\<close>
  let ?b = "generate_only_args 2000000"
  let ?g = "generate_data_batches example_config (Some 4) example_entropy"
  let ?out = "[Rule, Title, Rule, GeneratingRows (args_rows ?b)]"
  let ?tr0 = "[(SelectVersion, Some [[IntV 0]])]"
  have ga: "args_batch_size ?b = 4" "args_generate_only ?b" "1000000 < args_rows ?b"
    by (simp_all add: generate_only_args_def)
  from example_batches obtain x xs where y: "yields ?g = x # xs" and lx: "length x = 4"
    by (cases "yields ?g") auto
  then have xne: "x \<noteq> []" by auto
  from feed_batches_refuse_inserts[OF y xne, of "args_table ?b" "args_database ?b" 0 ?tr0
      "?out @ [StreamingBatches]"]
  obtain tr' out' where f: "feed_batches refuse_inserts (args_table ?b) (args_database ?b) ?g 0 ?tr0
      (?out @ [StreamingBatches]) = (Inl StoreError, 4, tr', out')"
    using lx by auto
  have s: "stream_batches refuse_inserts example_config ?b example_entropy ?tr0 ?out =
             (Inl StoreError, Some 4, tr', out')"
    unfolding stream_batches_def ga(1) f by simp
  then have t: "try_block refuse_inserts example_config ?b example_entropy ?tr0 =
             (Inl StoreError, Some 4, tr', out')"
    using ga(2,3) by (simp add: try_block_def streamed_def)
  from main_connected(2,3)[OF connect_refuse_inserts t]
  have c2: "exit_status (main refuse_inserts example_config ?b example_entropy) = 1"
    "total_rows (main refuse_inserts example_config ?b example_entropy) = Some 4"
    by simp_all
  \<comment> \<open>a negative configured count\<close>
  let ?c = "example_config\<lparr>num_rows := - 5\<rparr>"
  have wf: "wf_config ?c" using wf_example_config by (simp add: wf_config_def)
  have b4: "(4 :: int) \<noteq> 0" by simp
  from generate_data_batches_sizes[OF wf b4, of example_entropy]
  have r3: "raised (generate_data_batches ?c (Some 4) example_entropy) = None"
    and y3: "yields (generate_data_batches ?c (Some 4) example_entropy) = []"
    by simp_all
  from main_generate_only_streamed_accept_all[of ?c ?b example_entropy] r3 y3 ga
  have c3: "exit_status (main accept_all ?c ?b example_entropy) = 0"
    "total_rows (main accept_all ?c ?b example_entropy) = Some 0"
    by simp_all
  from n c1 c2 c3 show ?thesis by (intro conjI)
qed

section \<open>Generate-only runs\<close>

text \<open>
  Claim C1 above the threshold. A generate-only run of 1,000,001 requested rows against
  a store that accepts every call ends with exit status 0 after sending every generated
  batch to the store: three inserts, of four, four and two rows, are the writes the
  store sees. The claim has the run send no insert. (At or below the threshold a
  generate-only run makes no call after the constructor's version query.)
\<close>

theorem generate_only_streamed_run_inserts:
  "exit_status (main accept_all example_config (generate_only_args 1000001) example_entropy) = 0 \<and>
   inserts ''default'' ''user_events''
     (store (main accept_all example_config (generate_only_args 1000001) example_entropy)) =
     yields (generate_data_batches example_config (Some 4) example_entropy) \<and>
   filter writes
     (map fst (store (main accept_all example_config (generate_only_args 1000001) example_entropy))) =
     map (InsertRows ''default'' ''user_events'')
       (yields (generate_data_batches example_config (Some 4) example_entropy)) \<and>
   map length (yields (generate_data_batches example_config (Some 4) example_entropy)) = [4, 4, 2]"
proof -
  let ?a = "generate_only_args 1000001"
  let ?g = "generate_data_batches example_config (Some 4) example_entropy"
  have a: "args_batch_size ?a = 4" "args_generate_only ?a" "1000000 < args_rows ?a"
    "args_table ?a = ''user_events''" "args_database ?a = ''default''"
    by (simp_all add: generate_only_args_def)
  have r: "raised (generate_data_batches example_config (Some (args_batch_size ?a)) example_entropy) = None"
    using example_batches by (simp add: a(1))
  have l: "map length (yields ?g) = [4, 4, 2]" using example_batches by simp
  have ne: "filter (\<lambda>b. b \<noteq> []) (yields ?g) = yields ?g"
  proof (rule filter_True, rule ballI)
    fix b assume "b \<in> set (yields ?g)"
    then have "length b \<in> set (map length (yields ?g))" by simp
    then show "b \<noteq> []" unfolding l by auto
  qed
  from main_generate_only_streamed_accept_all[OF r a(2,3)]
  have e: "exit_status (main accept_all example_config ?a example_entropy) = 0"
    and s: "store (main accept_all example_config ?a example_entropy) =
       [(SelectVersion, Some [[IntV 0]])] @
       map (\<lambda>b. (InsertRows ''default'' ''user_events'' b, Some [[IntV 0]])) (yields ?g) @
        [(CountRows ''default'' ''user_events'', Some [[IntV 0]]),
         (EventStats ''default'' ''user_events'', Some [[IntV 0]]),
         (Disconnect, Some [[IntV 0]])]"
    by (simp_all add: a ne)
  have i: "inserts ''default'' ''user_events'' (store (main accept_all example_config ?a example_entropy)) =
      yields ?g"
    unfolding s by (simp add: inserts_append inserts_map)
  have w: "filter writes (map fst (store (main accept_all example_config ?a example_entropy))) =
      map (InsertRows ''default'' ''user_events'') (yields ?g)"
    unfolding s by (simp add: writes_map del: map_map)
  from e i w l show ?thesis by (intro conjI)
qed

end
